theory Spec2Isabelle
  imports Main "HOL-Library.Word" "HOL-Library.Sublist"
begin

unbundle bit_operations_syntax

section \<open>Values exchanged with the ledger\<close>

text \<open>
  \<^verbatim>\<open>transaction_feed.py\<close> works on the Python values that \<^verbatim>\<open>response.json()\<close>
  returns. A Python \<^verbatim>\<open>str\<close> is represented by its UTF-8 encoding (a \<^typ>\<open>string\<close>), a
  \<^verbatim>\<open>dict\<close> by an association list that \<open>get\<close> reads like \<^verbatim>\<open>dict.get\<close>, a JSON number by an
  integer. JSON booleans and fractional numbers are left out of the value type: the ledger
  never sends them in a field the script reads.
\<close>

datatype json =
    JNull
  | JInt int
  | JStr string
  | JList "json list"
  | JDict "(string \<times> json) list"

text \<open>Every exception the script can let escape, or catches, by its Python name.\<close>

datatype error =
    RetrievalError    \<comment> \<open>\<^verbatim>\<open>raise Exception(f"Unexpected response: ...")\<close>\<close>
  | TransportError    \<comment> \<open>\<^verbatim>\<open>requests.post\<close> or \<^verbatim>\<open>response.json()\<close> raised\<close>
  | AttributeError
  | TypeError
  | ValueError
  | OverflowError
  | TimestampOutOfRange \<comment> \<open>\<^verbatim>\<open>utcfromtimestamp\<close> outside the years 1..9999\<close>

text \<open>\<^verbatim>\<open>d.get(k)\<close> on a dict, with \<open>None\<close> for Python's \<^verbatim>\<open>None\<close> default.\<close>

definition get :: "(string \<times> json) list \<Rightarrow> string \<Rightarrow> json option" where
  "get d k = map_of d k"

text \<open>\<^verbatim>\<open>d.get(k, default)\<close>.\<close>

definition get_default :: "(string \<times> json) list \<Rightarrow> string \<Rightarrow> json \<Rightarrow> json" where
  "get_default d k dflt = (case map_of d k of None \<Rightarrow> dflt | Some v \<Rightarrow> v)"

text \<open>\<^verbatim>\<open>x.get\<close> exists only on a dict: anything else raises \<^verbatim>\<open>AttributeError\<close>.\<close>

fun as_dict :: "json \<Rightarrow> error + (string \<times> json) list" where
  "as_dict (JDict d) = Inr d"
| "as_dict _ = Inl AttributeError"

text \<open>Python truthiness, as \<^verbatim>\<open>if marker:\<close>, \<^verbatim>\<open>if not memos:\<close> and \<^verbatim>\<open>if not encoded_str:\<close> use it.\<close>

fun truthy :: "json \<Rightarrow> bool" where
  "truthy JNull = False"
| "truthy (JInt n) = (n \<noteq> 0)"
| "truthy (JStr s) = (s \<noteq> [])"
| "truthy (JList xs) = (xs \<noteq> [])"
| "truthy (JDict d) = (d \<noteq> [])"

text \<open>
  \<^verbatim>\<open>for x in v\<close>: a list yields its elements, a dict its keys, a str its characters (one
  value per byte here; every such value is a str and fails the same way at the first
  \<^verbatim>\<open>.get\<close>); \<^verbatim>\<open>None\<close> and an int are not iterable.
\<close>

fun py_iter :: "json \<Rightarrow> error + json list" where
  "py_iter (JList xs) = Inr xs"
| "py_iter (JDict d) = Inr (map (\<lambda>kv. JStr (fst kv)) d)"
| "py_iter (JStr s) = Inr (map (\<lambda>c. JStr [c]) s)"
| "py_iter _ = Inl TypeError"

section \<open>Configuration\<close>

definition CURRENCY_CODE :: string where
  "CURRENCY_CODE = ''PFT''"

definition ISSUER_ADDRESS :: string where
  "ISSUER_ADDRESS = ''rnQUEEg8yyjrwk9FhyXpKavHyCRJM9BDMW''"

definition ACCOUNT_TO_CHECK :: string where
  "ACCOUNT_TO_CHECK = ISSUER_ADDRESS"

section \<open>Payment filter\<close>

text \<open>
  \<^verbatim>\<open>is_token_payment(tx, currency_code, issuer)\<close>. The comparisons are Python's \<^verbatim>\<open>==\<close>
  between a JSON value and a str: equal only for a str of the same text.
\<close>

definition is_token_payment :: "(string \<times> json) list \<Rightarrow> string \<Rightarrow> string \<Rightarrow> bool" where
  "is_token_payment tx currency_code issuer =
     (if get tx ''TransactionType'' \<noteq> Some (JStr ''Payment'') then False
      else (case get tx ''Amount'' of
              Some (JDict amount) \<Rightarrow>
                (if get amount ''issuer'' = Some (JStr issuer) \<and>
                    get amount ''currency'' = Some (JStr currency_code)
                 then True else False)
            | _ \<Rightarrow> False))"

section \<open>Annotation (memo) decoding\<close>

text \<open>
  The three library calls of \<^verbatim>\<open>decode_hex_or_base64\<close> are modelled after CPython (3.7 and
  later): \<^verbatim>\<open>bytes.fromhex\<close>, \<^verbatim>\<open>base64.b64decode\<close> with its default \<^verbatim>\<open>validate=False\<close>, and
  \<^verbatim>\<open>bytes.decode('utf-8', errors='replace')\<close>. \<open>None\<close> stands for the exception the script
  catches (\<^verbatim>\<open>ValueError\<close>, \<^verbatim>\<open>binascii.Error\<close>).
\<close>

type_synonym bytes = "8 word list"

definition Py_ISSPACE :: "char \<Rightarrow> bool" where
  "Py_ISSPACE c = (c = CHR '' '' \<or> c = CHR 0x09 \<or> c = CHR 0x0A \<or> c = CHR 0x0B \<or>
                   c = CHR 0x0C \<or> c = CHR 0x0D)"

definition hex_digit_value :: "char \<Rightarrow> nat option" where
  "hex_digit_value c =
     (let n = (of_char c :: nat) in
      if 48 \<le> n \<and> n \<le> 57 then Some (n - 48)
      else if 97 \<le> n \<and> n \<le> 102 then Some (n - 87)
      else if 65 \<le> n \<and> n \<le> 70 then Some (n - 55)
      else None)"

text \<open>
  \<^verbatim>\<open>bytes.fromhex(s)\<close>: ASCII whitespace is skipped before each pair of digits, never
  inside a pair; any other character, or a digit left alone, raises \<^verbatim>\<open>ValueError\<close>.
\<close>

fun bytes_fromhex :: "string \<Rightarrow> bytes option" where
  "bytes_fromhex [] = Some []"
| "bytes_fromhex (c # cs) =
     (if Py_ISSPACE c then bytes_fromhex cs
      else (case hex_digit_value c of
              None \<Rightarrow> None
            | Some hi \<Rightarrow>
                (case cs of
                   [] \<Rightarrow> None
                 | d # ds \<Rightarrow>
                     (case hex_digit_value d of
                        None \<Rightarrow> None
                      | Some lo \<Rightarrow>
                          map_option ((#) (of_nat (hi * 16 + lo))) (bytes_fromhex ds)))))"

definition b64_value :: "char \<Rightarrow> 8 word option" where
  "b64_value c =
     (let n = (of_char c :: nat) in
      if 65 \<le> n \<and> n \<le> 90 then Some (of_nat (n - 65))
      else if 97 \<le> n \<and> n \<le> 122 then Some (of_nat (n - 71))
      else if 48 \<le> n \<and> n \<le> 57 then Some (of_nat (n + 4))
      else if c = CHR ''+'' then Some 62
      else if c = CHR ''/'' then Some 63
      else None)"

text \<open>
  The loop of \<^verbatim>\<open>binascii.a2b_base64\<close> outside strict mode, with its state \<open>quad_pos\<close>,
  \<open>leftchar\<close> and \<open>pads\<close>: characters outside the alphabet are skipped, a complete pad
  sequence ends the input, and data that stops inside a quad is an error.
\<close>

fun a2b_base64 :: "string \<Rightarrow> nat \<Rightarrow> 8 word \<Rightarrow> nat \<Rightarrow> bytes option" where
  "a2b_base64 [] quad_pos leftchar pads = (if quad_pos \<noteq> 0 then None else Some [])"
| "a2b_base64 (c # cs) quad_pos leftchar pads =
     (if c = CHR ''='' then
        (if quad_pos \<ge> 2 \<and> quad_pos + (pads + 1) \<ge> 4 then Some []
         else a2b_base64 cs quad_pos leftchar (if quad_pos \<ge> 2 then pads + 1 else pads))
      else (case b64_value c of
              None \<Rightarrow> a2b_base64 cs quad_pos leftchar pads
            | Some this_ch \<Rightarrow>
                (if quad_pos = 0 then a2b_base64 cs 1 this_ch 0
                 else if quad_pos = 1 then
                   map_option ((#) (push_bit 2 leftchar OR drop_bit 4 this_ch))
                     (a2b_base64 cs 2 (this_ch AND 0x0f) 0)
                 else if quad_pos = 2 then
                   map_option ((#) (push_bit 4 leftchar OR drop_bit 2 this_ch))
                     (a2b_base64 cs 3 (this_ch AND 0x03) 0)
                 else
                   map_option ((#) (push_bit 6 leftchar OR this_ch))
                     (a2b_base64 cs 0 0 0))))"

text \<open>
  \<^verbatim>\<open>base64.b64decode(s)\<close> on a str: the str is first encoded as ASCII, which raises
  \<^verbatim>\<open>ValueError\<close> on any other character.
\<close>

definition b64decode :: "string \<Rightarrow> bytes option" where
  "b64decode s =
     (if list_ex (\<lambda>c. (of_char c :: nat) \<ge> 128) s then None else a2b_base64 s 0 0 0)"

definition is_continuation :: "8 word \<Rightarrow> bool" where
  "is_continuation b = (0x80 \<le> b \<and> b \<le> 0xBF)"

definition REPLACEMENT :: string where
  "REPLACEMENT = [CHR 0xEF, CHR 0xBF, CHR 0xBD]"

definition chr8 :: "8 word \<Rightarrow> char" where
  "chr8 b = char_of (unat b)"

text \<open>
  The second byte of a three or four byte sequence, with the ranges that exclude overlong
  forms, surrogates and code points above U+10FFFF.
\<close>

definition second_ok :: "8 word \<Rightarrow> 8 word \<Rightarrow> bool" where
  "second_ok b c =
     (is_continuation c \<and>
      \<not> (b = 0xE0 \<and> c < 0xA0) \<and> \<not> (b = 0xED \<and> c \<ge> 0xA0) \<and>
      \<not> (b = 0xF0 \<and> c < 0x90) \<and> \<not> (b = 0xF4 \<and> c \<ge> 0x90))"

text \<open>
  \<^verbatim>\<open>bytes.decode('utf-8', errors='replace')\<close>. The result is the decoded str in its UTF-8
  encoding: a well-formed sequence is copied, and every error is replaced by U+FFFD. An
  invalid start byte is one error; an invalid continuation byte makes one error of the
  bytes before it; a sequence cut off by the end of the data is one error.
\<close>

fun utf8_decode_replace :: "bytes \<Rightarrow> string" where
  "utf8_decode_replace [] = []"
| "utf8_decode_replace (b # bs) =
     (if b < 0x80 then chr8 b # utf8_decode_replace bs
      else if b < 0xC2 \<or> 0xF5 \<le> b then REPLACEMENT @ utf8_decode_replace bs
      else if b < 0xE0 then
        (case bs of
           [] \<Rightarrow> REPLACEMENT
         | c # cs \<Rightarrow>
             if is_continuation c then chr8 b # chr8 c # utf8_decode_replace cs
             else REPLACEMENT @ utf8_decode_replace bs)
      else if b < 0xF0 then
        (case bs of
           [] \<Rightarrow> REPLACEMENT
         | c # cs \<Rightarrow>
             if \<not> second_ok b c then REPLACEMENT @ utf8_decode_replace bs
             else (case cs of
                     [] \<Rightarrow> REPLACEMENT
                   | d # ds \<Rightarrow>
                       if is_continuation d
                       then chr8 b # chr8 c # chr8 d # utf8_decode_replace ds
                       else REPLACEMENT @ utf8_decode_replace cs))
      else
        (case bs of
           [] \<Rightarrow> REPLACEMENT
         | c # cs \<Rightarrow>
             if \<not> second_ok b c then REPLACEMENT @ utf8_decode_replace bs
             else (case cs of
                     [] \<Rightarrow> REPLACEMENT
                   | d # ds \<Rightarrow>
                       if \<not> is_continuation d then REPLACEMENT @ utf8_decode_replace cs
                       else (case ds of
                               [] \<Rightarrow> REPLACEMENT
                             | e # es \<Rightarrow>
                                 if is_continuation e
                                 then chr8 b # chr8 c # chr8 d # chr8 e # utf8_decode_replace es
                                 else REPLACEMENT @ utf8_decode_replace ds))))"

text \<open>
  \<^verbatim>\<open>decode_hex_or_base64(encoded_str)\<close>. A falsy argument gives the empty str; a str goes
  through hex, then base64, then is returned as it is; any other value reaches
  \<^verbatim>\<open>bytes.fromhex\<close>, whose \<^verbatim>\<open>TypeError\<close> the script does not catch.
\<close>

definition decode_hex_or_base64 :: "json \<Rightarrow> error + string" where
  "decode_hex_or_base64 encoded_str =
     (if \<not> truthy encoded_str then Inr []
      else (case encoded_str of
              JStr s \<Rightarrow>
                (case bytes_fromhex s of
                   Some decoded_bytes \<Rightarrow> Inr (utf8_decode_replace decoded_bytes)
                 | None \<Rightarrow>
                     (case b64decode s of
                        Some decoded_bytes \<Rightarrow> Inr (utf8_decode_replace decoded_bytes)
                      | None \<Rightarrow> Inr s))
            | _ \<Rightarrow> Inl TypeError))"

text \<open>Sequencing of calls that may raise: the first exception ends the computation.\<close>

definition bind :: "error + 'a \<Rightarrow> ('a \<Rightarrow> error + 'b) \<Rightarrow> error + 'b" where
  "bind m f = (case m of Inl e \<Rightarrow> Inl e | Inr x \<Rightarrow> f x)"

text \<open>A \<^verbatim>\<open>for\<close> loop that appends one result per element.\<close>

fun for_each :: "('a \<Rightarrow> error + 'b) \<Rightarrow> 'a list \<Rightarrow> error + 'b list" where
  "for_each f [] = Inr []"
| "for_each f (x # xs) =
     (case f x of
        Inl e \<Rightarrow> Inl e
      | Inr y \<Rightarrow> (case for_each f xs of Inl e \<Rightarrow> Inl e | Inr ys \<Rightarrow> Inr (y # ys)))"

text \<open>\<^verbatim>\<open>"\n".join(parts)\<close>.\<close>

fun join_newline :: "string list \<Rightarrow> string" where
  "join_newline [] = []"
| "join_newline [x] = x"
| "join_newline (x # y # ys) = x @ CHR 0x0A # join_newline (y # ys)"

text \<open>The body of the loop of \<^verbatim>\<open>extract_memos\<close>.\<close>

definition decode_memo_entry :: "json \<Rightarrow> error + string" where
  "decode_memo_entry memo_entry =
     bind (as_dict memo_entry) (\<lambda>entry.
     bind (as_dict (get_default entry ''Memo'' (JDict []))) (\<lambda>memo.
     decode_hex_or_base64 (get_default memo ''MemoData'' (JStr []))))"

definition extract_memos :: "(string \<times> json) list \<Rightarrow> error + string" where
  "extract_memos transaction =
     (let memos = get_default transaction ''Memos'' (JList []) in
      if \<not> truthy memos then Inr []
      else bind (py_iter memos) (\<lambda>entries.
           bind (for_each decode_memo_entry entries) (\<lambda>decoded_memos.
           Inr (join_newline decoded_memos))))"

section \<open>Amount conversion\<close>

text \<open>
  \<^verbatim>\<open>int(float(value_str))\<close>, after CPython: \<^verbatim>\<open>float\<close> of a str accepts underscores between
  digits, surrounding ASCII whitespace, a sign, \<^verbatim>\<open>inf\<close>, \<^verbatim>\<open>infinity\<close> and \<^verbatim>\<open>nan\<close> in any case,
  or a decimal number with an optional exponent, and rounds the number to the nearest
  IEEE 754 double, ties to even. Decimal digits and whitespace outside ASCII, which Python
  also accepts, are not modelled: such a str is a parse failure here.
\<close>

definition is_digit :: "char \<Rightarrow> bool" where
  "is_digit c = (let n = (of_char c :: int) in 48 \<le> n \<and> n \<le> 57)"

text \<open>The value of a run of decimal digits.\<close>

definition digits_value :: "string \<Rightarrow> int" where
  "digits_value ds = foldl (\<lambda>acc c. 10 * acc + (of_char c - 48)) 0 ds"

text \<open>
  Underscores are dropped; one that does not stand between two digits is an error. The
  first argument is the previous character.
\<close>

fun remove_underscores :: "char \<Rightarrow> string \<Rightarrow> string option" where
  "remove_underscores prev [] = (if prev = CHR ''_'' then None else Some [])"
| "remove_underscores prev (c # cs) =
     (if c = CHR ''_'' then (if is_digit prev then remove_underscores c cs else None)
      else if prev = CHR ''_'' \<and> \<not> is_digit c then None
      else map_option ((#) c) (remove_underscores c cs))"

definition strip_space :: "string \<Rightarrow> string" where
  "strip_space s = rev (dropWhile Py_ISSPACE (rev (dropWhile Py_ISSPACE s)))"

text \<open>An optional sign: whether it is a minus, and the rest.\<close>

fun parse_sign :: "string \<Rightarrow> bool \<times> string" where
  "parse_sign [] = (False, [])"
| "parse_sign (c # cs) =
     (if c = CHR ''-'' then (True, cs) else if c = CHR ''+'' then (False, cs)
      else (False, c # cs))"

definition to_lower :: "char \<Rightarrow> char" where
  "to_lower c = (let n = (of_char c :: int) in if 65 \<le> n \<and> n \<le> 90 then char_of (n + 32) else c)"

text \<open>The exponent part: empty, or \<^verbatim>\<open>e\<close>, an optional sign and at least one digit.\<close>

definition parse_exponent :: "string \<Rightarrow> int option" where
  "parse_exponent r =
     (case r of
        [] \<Rightarrow> Some 0
      | c # cs \<Rightarrow>
          if c = CHR ''e'' \<or> c = CHR ''E'' then
            (let (neg, ds) = parse_sign cs in
             if ds \<noteq> [] \<and> list_all is_digit ds
             then Some (if neg then - digits_value ds else digits_value ds)
             else None)
          else None)"

text \<open>
  A decimal number as \<open>(n, e)\<close>, standing for \<open>n * 10 ^ e\<close>: digits, an optional point and
  more digits, at least one digit in all, then the exponent part.
\<close>

definition parse_decimal :: "string \<Rightarrow> (int \<times> int) option" where
  "parse_decimal s =
     (let ip = takeWhile is_digit s; r1 = dropWhile is_digit s;
          (fp, r2) = (case r1 of
                        [] \<Rightarrow> ([], [])
                      | c # cs \<Rightarrow>
                          if c = CHR ''.'' then (takeWhile is_digit cs, dropWhile is_digit cs)
                          else ([], r1))
      in if ip = [] \<and> fp = [] then None
         else (case parse_exponent r2 of
                 None \<Rightarrow> None
               | Some e \<Rightarrow> Some (digits_value (ip @ fp), e - int (length fp))))"

text \<open>\<^verbatim>\<open>int.bit_length\<close> of a number that is not negative.\<close>

function bit_length :: "int \<Rightarrow> int" where
  "bit_length n = (if n \<le> 0 then 0 else 1 + bit_length (n div 2))"
  by pat_completeness auto
termination
  by (relation "measure nat") auto

text \<open>The quotient \<open>n / d\<close> rounded to the nearest integer, a tie to the even one.\<close>

definition round_half_even :: "int \<Rightarrow> int \<Rightarrow> int" where
  "round_half_even n d =
     (let q = n div d; r = n mod d in
      if 2 * r > d \<or> (2 * r = d \<and> odd q) then q + 1 else q)"

text \<open>
  The double nearest to the rational \<open>n / d\<close> with \<open>n \<ge> 0\<close> and \<open>d > 0\<close>, as \<open>(m, p)\<close> standing for
  \<open>m * 2 ^ p\<close>: 53 significant bits, exponents from \<open>-1074\<close>; \<open>None\<close> when the rounded value
  is beyond the largest double (the value is then infinite).
\<close>

definition to_double :: "int \<Rightarrow> int \<Rightarrow> (int \<times> int) option" where
  "to_double n d =
     (if n = 0 then Some (0, 0)
      else
        (let e0 = bit_length n - bit_length d;
             e = (if (if e0 \<ge> 0 then n \<ge> d * 2 ^ nat e0 else n * 2 ^ nat (- e0) \<ge> d)
                  then e0 else e0 - 1);
             p = max (e - 52) (- 1074);
             m = (if p \<ge> 0 then round_half_even n (d * 2 ^ nat p)
                  else round_half_even (n * 2 ^ nat (- p)) d)
         in if p \<ge> 0 \<and> m * 2 ^ nat p \<ge> 2 ^ 1024 then None else Some (m, p)))"

text \<open>A Python float: not a number, infinite, or \<open>\<plusminus> m * 2 ^ p\<close>.\<close>

datatype pyfloat = FNan | FInf | FFinite bool int int

text \<open>\<^verbatim>\<open>float(s)\<close> for a str; \<open>None\<close> is \<^verbatim>\<open>ValueError\<close>.\<close>

definition float_of_str :: "string \<Rightarrow> pyfloat option" where
  "float_of_str s =
     (case remove_underscores (CHR 0x00) s of
        None \<Rightarrow> None
      | Some s1 \<Rightarrow>
          (let (neg, body) = parse_sign (strip_space s1); low = map to_lower body in
           if low = ''inf'' \<or> low = ''infinity'' then Some FInf
           else if low = ''nan'' then Some FNan
           else (case parse_decimal body of
                   None \<Rightarrow> None
                 | Some (n, e) \<Rightarrow>
                     (case (if e \<ge> 0 then to_double (n * 10 ^ nat e) 1
                            else to_double n (10 ^ nat (- e))) of
                        None \<Rightarrow> Some FInf
                      | Some (m, p) \<Rightarrow> Some (FFinite neg m p)))))"

text \<open>
  \<^verbatim>\<open>float(x)\<close>: a str is parsed, an int is rounded (\<^verbatim>\<open>OverflowError\<close> beyond the largest
  double), anything else is a \<^verbatim>\<open>TypeError\<close>.
\<close>

definition py_float :: "json \<Rightarrow> error + pyfloat" where
  "py_float x =
     (case x of
        JStr s \<Rightarrow> (case float_of_str s of None \<Rightarrow> Inl ValueError | Some f \<Rightarrow> Inr f)
      | JInt k \<Rightarrow>
          (case to_double \<bar>k\<bar> 1 of
             None \<Rightarrow> Inl OverflowError
           | Some (m, p) \<Rightarrow> Inr (FFinite (k < 0) m p))
      | _ \<Rightarrow> Inl TypeError)"

text \<open>\<^verbatim>\<open>int(f)\<close> of a float: truncation towards zero.\<close>

definition py_int :: "pyfloat \<Rightarrow> error + int" where
  "py_int f =
     (case f of
        FNan \<Rightarrow> Inl ValueError
      | FInf \<Rightarrow> Inl OverflowError
      | FFinite neg m p \<Rightarrow>
          (let a = (if p \<ge> 0 then m * 2 ^ nat p else m div 2 ^ nat (- p)) in
           Inr (if neg then - a else a)))"

text \<open>
  The \<^verbatim>\<open>try\<close> block of \<^verbatim>\<open>main\<close>: \<^verbatim>\<open>amount_int = int(float(value_str))\<close>, with
  \<^verbatim>\<open>except ValueError: amount_int = 0\<close>. Every other exception escapes.
\<close>

definition amount_to_int :: "json \<Rightarrow> error + int" where
  "amount_to_int value_str =
     (let r = bind (py_float value_str) py_int in
      if r = Inl ValueError then Inr 0 else r)"

section \<open>Timestamp conversion\<close>

text \<open>
  A naive UTC \<^verbatim>\<open>datetime\<close> is represented by the instant it denotes, in seconds since
  1970-01-01T00:00:00 UTC; \<open>civil\<close> gives its calendar fields.
\<close>

datatype datetime = Datetime (unix_seconds: int)

text \<open>Year, month and day of a day number counted from 1970-01-01 (Gregorian calendar).\<close>

definition civil_from_days :: "int \<Rightarrow> int \<times> int \<times> int" where
  "civil_from_days z0 =
     (let z = z0 + 719468;
          era = z div 146097;
          doe = z - era * 146097;
          yoe = (doe - doe div 1460 + doe div 36524 - doe div 146096) div 365;
          y = yoe + era * 400;
          doy = doe - (365 * yoe + yoe div 4 - yoe div 100);
          mp = (5 * doy + 2) div 153;
          d = doy - (153 * mp + 2) div 5 + 1;
          m = (if mp < 10 then mp + 3 else mp - 9)
      in (if m \<le> 2 then y + 1 else y, m, d))"

text \<open>Year, month, day, hour, minute, second.\<close>

definition civil :: "datetime \<Rightarrow> int \<times> int \<times> int \<times> int \<times> int \<times> int" where
  "civil dt =
     (let ts = unix_seconds dt; (y, m, d) = civil_from_days (ts div 86400); r = ts mod 86400
      in (y, m, d, r div 3600, r mod 3600 div 60, r mod 60))"

text \<open>
  \<^verbatim>\<open>datetime.datetime.utcfromtimestamp(ts)\<close> for an int, on a POSIX platform: it raises
  outside 0001-01-01T00:00:00 .. 9999-12-31T23:59:59 (\<^verbatim>\<open>ValueError\<close>, \<^verbatim>\<open>OverflowError\<close> or
  \<^verbatim>\<open>OSError\<close>, by magnitude).
\<close>

definition utcfromtimestamp :: "int \<Rightarrow> error + datetime" where
  "utcfromtimestamp ts =
     (if ts < - 62135596800 \<or> ts > 253402300799 then Inl TimestampOutOfRange
      else Inr (Datetime ts))"

definition ripple_to_unix_time :: "int \<Rightarrow> int" where
  "ripple_to_unix_time ripple_time = ripple_time + 946684800"

definition get_ripple_datetime :: "int \<Rightarrow> error + datetime" where
  "get_ripple_datetime ripple_time =
     (let unix_ts = ripple_to_unix_time ripple_time in utcfromtimestamp unix_ts)"

section \<open>Storage\<close>

text \<open>
  Modelled from the spec: the table \<^verbatim>\<open>pft_transactions\<close> is created outside the repository.
  Its rows have the seven columns of the \<^verbatim>\<open>INSERT\<close> statement, \<^verbatim>\<open>ledger_index\<close> and
  \<^verbatim>\<open>amount\<close> are integers, and \<^verbatim>\<open>transaction_hash\<close> is unique (the conflict target of the
  statement). A row holds the values the script passes to the driver; column ranges and
  SQL's treatment of NULL in a unique column are not modelled.
\<close>

record row =
  ledger_index :: int
  transaction_hash :: json
  from_address :: json
  to_address :: json
  memo :: string
  amount :: int
  transaction_timestamp :: "datetime option"

type_synonym table = "row list"

text \<open>
  The connection, with \<^verbatim>\<open>autocommit = False\<close>: the rows the open transaction sees, and the
  rows committed so far, which are what remains when the process ends without a commit.
\<close>

record connection =
  pending :: table
  committed :: table

definition commit :: "connection \<Rightarrow> connection" where
  "commit conn = conn\<lparr>committed := pending conn\<rparr>"

text \<open>\<^verbatim>\<open>SELECT MAX(ledger_index)\<close>: NULL on an empty table.\<close>

fun sql_max :: "int list \<Rightarrow> int option" where
  "sql_max [] = None"
| "sql_max (x # xs) = (case sql_max xs of None \<Rightarrow> Some x | Some m \<Rightarrow> Some (max x m))"

definition get_last_stored_ledger_index :: "connection \<Rightarrow> int" where
  "get_last_stored_ledger_index conn =
     (case sql_max (map ledger_index (pending conn)) of
        Some result \<Rightarrow> result
      | None \<Rightarrow> - 1)"

text \<open>\<^verbatim>\<open>INSERT ... ON CONFLICT (transaction_hash) DO NOTHING\<close>.\<close>

definition insert_or_ignore :: "table \<Rightarrow> row \<Rightarrow> table" where
  "insert_or_ignore t r =
     (if list_ex (\<lambda>r'. transaction_hash r' = transaction_hash r) t then t else t @ [r])"

text \<open>\<^verbatim>\<open>insert_transaction\<close>: one statement in the open transaction, no commit.\<close>

definition insert_transaction ::
  "connection \<Rightarrow> int \<Rightarrow> json \<Rightarrow> json \<Rightarrow> json \<Rightarrow> string \<Rightarrow> int \<Rightarrow> datetime option \<Rightarrow> connection" where
  "insert_transaction conn ledger_index' tx_hash from_address' to_address' memo' amount_int tx_datetime =
     conn\<lparr>pending := insert_or_ignore (pending conn)
       \<lparr>ledger_index = ledger_index', transaction_hash = tx_hash,
        from_address = from_address', to_address = to_address', memo = memo',
        amount = amount_int, transaction_timestamp = tx_datetime\<rparr>\<rparr>"

section \<open>Paginated fetcher\<close>

text \<open>The parameters of an \<^verbatim>\<open>account_tx\<close> request; \<open>marker\<close> is present only when sent.\<close>

record request =
  account :: string
  ledger_index_min :: int
  ledger_index_max :: int
  limit :: int
  marker :: "json option"

text \<open>
  The remote ledger: what \<^verbatim>\<open>requests.post(...)\<close> followed by \<^verbatim>\<open>response.json()\<close> gives for
  a request, an exception of either call being \<open>TransportError\<close>.
\<close>

type_synonym remote = "request \<Rightarrow> error + json"

text \<open>
  \<^verbatim>\<open>if "result" not in response_json: raise Exception(...)\<close>, then
  \<^verbatim>\<open>response_json["result"]\<close>. On a list or a str \<^verbatim>\<open>in\<close> is a membership or substring test
  and the subscript is a \<^verbatim>\<open>TypeError\<close>; \<^verbatim>\<open>None\<close> and an int do not support \<^verbatim>\<open>in\<close>.
\<close>

fun result_envelope :: "json \<Rightarrow> error + json" where
  "result_envelope (JDict d) =
     (case get d ''result'' of None \<Rightarrow> Inl RetrievalError | Some r \<Rightarrow> Inr r)"
| "result_envelope (JList xs) =
     (if JStr ''result'' \<in> set xs then Inl TypeError else Inl RetrievalError)"
| "result_envelope (JStr s) =
     (if sublist ''result'' s then Inl TypeError else Inl RetrievalError)"
| "result_envelope _ = Inl TypeError"

text \<open>\<^verbatim>\<open>fetch_account_transactions\<close>: one page and the marker of the next (\<open>JNull\<close> for none).\<close>

definition fetch_account_transactions ::
  "remote \<Rightarrow> string \<Rightarrow> int \<Rightarrow> int \<Rightarrow> json \<Rightarrow> error + (json \<times> json)" where
  "fetch_account_transactions remote account' ledger_index_min' limit' marker' =
     (let request_body = \<lparr>account = account', ledger_index_min = ledger_index_min',
            ledger_index_max = - 1, limit = limit',
            marker = (if truthy marker' then Some marker' else None)\<rparr> in
      bind (remote request_body) (\<lambda>response_json.
      bind (result_envelope response_json) (\<lambda>result.
      bind (as_dict result) (\<lambda>result.
      Inr (get_default result ''transactions'' (JList []),
           get_default result ''marker'' JNull)))))"

section \<open>Orchestrator\<close>

text \<open>
  \<^verbatim>\<open>ledger_index_tx > highest_ledger_this_run\<close> with an int on the right: only an int on the
  left can be compared.
\<close>

fun comparable_int :: "json \<Rightarrow> error + int" where
  "comparable_int (JInt n) = Inr n"
| "comparable_int _ = Inl TypeError"

text \<open>
  \<^verbatim>\<open>ripple_time = tx.get("date")\<close> and the branch on \<^verbatim>\<open>ripple_time is not None\<close>; adding the
  epoch offset to anything but an int is a \<^verbatim>\<open>TypeError\<close>.
\<close>

definition tx_datetime_of :: "(string \<times> json) list \<Rightarrow> error + datetime option" where
  "tx_datetime_of tx =
     (case get tx ''date'' of
        None \<Rightarrow> Inr None
      | Some JNull \<Rightarrow> Inr None
      | Some (JInt ripple_time) \<Rightarrow> bind (get_ripple_datetime ripple_time) (\<lambda>dt. Inr (Some dt))
      | Some _ \<Rightarrow> Inl TypeError)"

text \<open>
  \<^verbatim>\<open>amount = tx.get("Amount", {})\<close> and the choice of \<^verbatim>\<open>value_str\<close>.
\<close>

definition value_str_of :: "(string \<times> json) list \<Rightarrow> json" where
  "value_str_of tx =
     (case get_default tx ''Amount'' (JDict []) of
        JDict amount' \<Rightarrow> get_default amount' ''value'' (JStr ''0'')
      | other \<Rightarrow> other)"

text \<open>
  The body of \<^verbatim>\<open>for entry in transactions_batch\<close>, on the highest ledger index seen and the
  connection.
\<close>

definition process_entry :: "json \<Rightarrow> int \<times> connection \<Rightarrow> error + (int \<times> connection)" where
  "process_entry entry st =
     (let (highest_ledger_this_run, conn) = st in
      bind (as_dict entry) (\<lambda>entry'.
      bind (as_dict (get_default entry' ''tx'' (JDict []))) (\<lambda>tx.
      bind (comparable_int (get_default tx ''ledger_index'' (JInt 0))) (\<lambda>ledger_index_tx.
      let highest = (if ledger_index_tx > highest_ledger_this_run then ledger_index_tx
                     else highest_ledger_this_run) in
      if is_token_payment tx CURRENCY_CODE ISSUER_ADDRESS then
        (let from_addr = get_default tx ''Account'' (JStr []);
             to_addr = get_default tx ''Destination'' (JStr []);
             tx_hash = get_default tx ''hash'' (JStr [])
         in bind (amount_to_int (value_str_of tx)) (\<lambda>amount_int.
            bind (tx_datetime_of tx) (\<lambda>tx_datetime.
            bind (extract_memos tx) (\<lambda>memo_str.
            Inr (highest,
                 insert_transaction conn ledger_index_tx tx_hash from_addr to_addr
                   memo_str amount_int tx_datetime)))))
      else Inr (highest, conn)))))"

text \<open>The \<^verbatim>\<open>for\<close> loop over one page.\<close>

fun process_batch :: "json list \<Rightarrow> int \<times> connection \<Rightarrow> error + (int \<times> connection)" where
  "process_batch [] st = Inr st"
| "process_batch (entry # entries) st =
     (case process_entry entry st of
        Inl e \<Rightarrow> Inl e
      | Inr st' \<Rightarrow> process_batch entries st')"

text \<open>One page: \<^verbatim>\<open>for entry in transactions_batch: ...\<close> on whatever value the page is.\<close>

definition page_result :: "json \<Rightarrow> int \<times> connection \<Rightarrow> error + (int \<times> connection)" where
  "page_result transactions_batch st =
     bind (py_iter transactions_batch) (\<lambda>entries. process_batch entries st)"

text \<open>
  The \<^verbatim>\<open>while True\<close> loop of \<^verbatim>\<open>main\<close>. It returns how the run ended (an escaped exception,
  or the highest ledger index seen) and the rows left in storage: an exception ends the
  process with the open transaction uncommitted. A run whose every page carries a marker
  never returns, which is the value \<open>None\<close>.
\<close>

partial_function (option) fetch_loop ::
  "remote \<Rightarrow> int \<Rightarrow> json \<Rightarrow> int \<Rightarrow> connection \<Rightarrow> ((error + int) \<times> table) option" where
  "fetch_loop remote ledger_index_min' marker' highest_ledger_this_run conn =
     (case fetch_account_transactions remote ACCOUNT_TO_CHECK ledger_index_min' 1000 marker' of
        Inl e \<Rightarrow> Some (Inl e, committed conn)
      | Inr (transactions_batch, next_marker) \<Rightarrow>
          (case page_result transactions_batch (highest_ledger_this_run, conn) of
             Inl e \<Rightarrow> Some (Inl e, committed conn)
           | Inr (highest, conn') \<Rightarrow>
               (let conn'' = commit conn' in
                if \<not> truthy next_marker then Some (Inr highest, committed conn'')
                else fetch_loop remote ledger_index_min' next_marker highest conn'')))"

text \<open>\<^verbatim>\<open>main\<close>, started on the rows storage holds.\<close>

definition main :: "remote \<Rightarrow> table \<Rightarrow> ((error + int) \<times> table) option" where
  "main remote stored =
     (let conn = \<lparr>pending = stored, committed = stored\<rparr>;
          last_ledger_index = get_last_stored_ledger_index conn;
          ledger_index_min' = last_ledger_index + 1
      in fetch_loop remote ledger_index_min' JNull ledger_index_min' conn)"

section \<open>Vocabulary of the properties\<close>

text \<open>The transaction body of a page entry, when the entry and its \<^verbatim>\<open>tx\<close> field are dicts.\<close>

definition entry_tx :: "json \<Rightarrow> (string \<times> json) list option" where
  "entry_tx entry =
     (case entry of
        JDict e \<Rightarrow> (case get_default e ''tx'' (JDict []) of JDict tx \<Rightarrow> Some tx | _ \<Rightarrow> None)
      | _ \<Rightarrow> None)"

text \<open>A transaction that passes the payment filter with the configured values.\<close>

definition tracked :: "(string \<times> json) list \<Rightarrow> bool" where
  "tracked tx = is_token_payment tx CURRENCY_CODE ISSUER_ADDRESS"

text \<open>
  The row \<open>r\<close> is what \<^verbatim>\<open>main\<close> passes to \<^verbatim>\<open>insert_transaction\<close> for the transaction \<open>tx\<close>:
  every conversion succeeds and gives the column of \<open>r\<close>.
\<close>

definition persists_as :: "(string \<times> json) list \<Rightarrow> row \<Rightarrow> bool" where
  "persists_as tx r =
     (comparable_int (get_default tx ''ledger_index'' (JInt 0)) = Inr (ledger_index r) \<and>
      transaction_hash r = get_default tx ''hash'' (JStr []) \<and>
      from_address r = get_default tx ''Account'' (JStr []) \<and>
      to_address r = get_default tx ''Destination'' (JStr []) \<and>
      extract_memos tx = Inr (memo r) \<and>
      amount_to_int (value_str_of tx) = Inr (amount r) \<and>
      tx_datetime_of tx = Inr (transaction_timestamp r))"

text \<open>
  The states at the head of the \<^verbatim>\<open>while\<close> loop (marker to send, highest ledger index,
  connection) that a run started in \<open>s0\<close> goes through: each page that is fetched and
  processed without an exception and carries a truthy marker leads to the next state.
\<close>

inductive_set loop_states :: "remote \<Rightarrow> int \<Rightarrow> json \<times> int \<times> connection \<Rightarrow> (json \<times> int \<times> connection) set"
  for remote :: remote and lim :: int and s0 :: "json \<times> int \<times> connection" where
  start: "s0 \<in> loop_states remote lim s0"
| step: "(m, h, c) \<in> loop_states remote lim s0 \<Longrightarrow>
         fetch_account_transactions remote ACCOUNT_TO_CHECK lim 1000 m = Inr (batch, nm) \<Longrightarrow>
         page_result batch (h, c) = Inr (h1, c1) \<Longrightarrow> truthy nm \<Longrightarrow>
         (nm, h1, commit c1) \<in> loop_states remote lim s0"

text \<open>The entries of the pages the ledger returns to such a run.\<close>

definition served :: "remote \<Rightarrow> int \<Rightarrow> json \<times> int \<times> connection \<Rightarrow> json set" where
  "served remote lim s0 =
     {e. \<exists>m h c batch nm es. (m, h, c) \<in> loop_states remote lim s0 \<and>
           fetch_account_transactions remote ACCOUNT_TO_CHECK lim 1000 m = Inr (batch, nm) \<and>
           py_iter batch = Inr es \<and> e \<in> set es}"

text \<open>The state in which \<^verbatim>\<open>main\<close> enters the loop when storage holds \<open>stored\<close>.\<close>

definition initial_state :: "table \<Rightarrow> json \<times> int \<times> connection" where
  "initial_state stored =
     (JNull, get_last_stored_ledger_index \<lparr>pending = stored, committed = stored\<rparr> + 1,
      \<lparr>pending = stored, committed = stored\<rparr>)"

definition run_states :: "remote \<Rightarrow> table \<Rightarrow> (json \<times> int \<times> connection) set" where
  "run_states remote stored =
     loop_states remote
       (get_last_stored_ledger_index \<lparr>pending = stored, committed = stored\<rparr> + 1)
       (initial_state stored)"

definition run_served :: "remote \<Rightarrow> table \<Rightarrow> json set" where
  "run_served remote stored =
     served remote
       (get_last_stored_ledger_index \<lparr>pending = stored, committed = stored\<rparr> + 1)
       (initial_state stored)"

text \<open>The rows of the accepted transactions among a set of page entries.\<close>

definition tracked_rows_of :: "json set \<Rightarrow> row set" where
  "tracked_rows_of entries =
     {r. \<exists>e tx. e \<in> entries \<and> entry_tx e = Some tx \<and> tracked tx \<and> persists_as tx r}"

section \<open>Example inputs\<close>

text \<open>A payment of the tracked token, dated at the ledger epoch, as a page entry.\<close>

definition payment_tx :: "string \<Rightarrow> int \<Rightarrow> string \<Rightarrow> (string \<times> json) list" where
  "payment_tx h li v =
     [(''TransactionType'', JStr ''Payment''), (''Account'', JStr ''rSender''),
      (''Destination'', JStr ''rDest''), (''hash'', JStr h), (''ledger_index'', JInt li),
      (''date'', JInt 0),
      (''Amount'', JDict [(''currency'', JStr ''PFT''),
                          (''issuer'', JStr ''rnQUEEg8yyjrwk9FhyXpKavHyCRJM9BDMW''),
                          (''value'', JStr v)])]"

definition payment_entry :: "string \<Rightarrow> int \<Rightarrow> string \<Rightarrow> json" where
  "payment_entry h li v = JDict [(''tx'', JDict (payment_tx h li v)), (''meta'', JDict [])]"

text \<open>The row such a payment is stored as.\<close>

definition payment_row :: "string \<Rightarrow> int \<Rightarrow> int \<Rightarrow> row" where
  "payment_row h li a =
     \<lparr>ledger_index = li, transaction_hash = JStr h, from_address = JStr ''rSender'',
      to_address = JStr ''rDest'', memo = [], amount = a,
      transaction_timestamp = Some (Datetime 946684800)\<rparr>"

text \<open>A payment from the tracked issuer in another currency.\<close>

definition other_currency_tx :: "(string \<times> json) list" where
  "other_currency_tx =
     [(''TransactionType'', JStr ''Payment''), (''hash'', JStr ''C''), (''ledger_index'', JInt 9),
      (''Amount'', JDict [(''currency'', JStr ''USD''),
                          (''issuer'', JStr ''rnQUEEg8yyjrwk9FhyXpKavHyCRJM9BDMW''),
                          (''value'', JStr ''7'')])]"

text \<open>A response envelope with a page and, when given, a marker.\<close>

definition response :: "json list \<Rightarrow> json option \<Rightarrow> json" where
  "response entries mk =
     JDict [(''result'', JDict ((''transactions'', JList entries) #
              (case mk of None \<Rightarrow> [] | Some v \<Rightarrow> [(''marker'', v)])))]"

text \<open>
  A ledger of two pages: the first request gets one payment and a marker, the request
  that carries the marker gets two more entries, one of them with the first hash again.
\<close>

definition two_pages :: remote where
  "two_pages rq =
     (if marker rq = None then Inr (response [payment_entry ''A'' 5 ''1.5''] (Some (JInt 1)))
      else Inr (response [payment_entry ''B'' 7 ''2.5'', payment_entry ''A'' 8 ''3''] None))"

text \<open>
  A ledger of one page that holds a tracked payment and the payment in another currency.
\<close>

definition mixed_page :: remote where
  "mixed_page rq =
     Inr (response [payment_entry ''A'' 5 ''1.5'', JDict [(''tx'', JDict other_currency_tx)]] None)"

definition run_request :: "int \<Rightarrow> request \<Rightarrow> bool" where
  "run_request lim rq \<longleftrightarrow>
     account rq = ACCOUNT_TO_CHECK \<and> ledger_index_min rq = lim \<and>
     ledger_index_max rq = - 1 \<and> limit rq = 1000"

definition final_state ::
  "remote \<Rightarrow> int \<Rightarrow> json \<times> int \<times> connection \<Rightarrow> int \<Rightarrow> table \<Rightarrow> json \<times> int \<times> connection \<Rightarrow> bool" where
  "final_state remote lim s0 hf T s \<longleftrightarrow>
     s \<in> loop_states remote lim s0 \<and>
     (\<exists>batch nm c1.
        fetch_account_transactions remote ACCOUNT_TO_CHECK lim 1000 (fst s) = Inr (batch, nm) \<and>
        page_result batch (snd s) = Inr (hf, c1) \<and> \<not> truthy nm \<and> T = pending c1)"

definition hashes :: "table \<Rightarrow> json set" where
  "hashes t = transaction_hash ` set t"

definition down :: remote where
  "down rq = Inl TransportError"

definition only_from :: "int \<Rightarrow> remote \<Rightarrow> remote" where
  "only_from lim remote rq = (if ledger_index_min rq = lim then remote rq else Inl TransportError)"

definition broken_second_page :: remote where
  "broken_second_page rq =
     (if marker rq = None then Inr (response [payment_entry ''A'' 5 ''1.5''] (Some (JInt 1)))
      else Inr (JDict [(''error'', JStr ''slowDown'')]))"

definition empty_marker_ledger :: remote where
  "empty_marker_ledger rq = Inr (response [] (Some (JStr [])))"

text \<open>A tracked payment without the \<^verbatim>\<open>hash\<close> field, and the row it is stored as.\<close>

definition hashless_tx :: "int \<Rightarrow> string \<Rightarrow> (string \<times> json) list" where
  "hashless_tx li v =
     [(''TransactionType'', JStr ''Payment''), (''Account'', JStr ''rSender''),
      (''Destination'', JStr ''rDest''), (''ledger_index'', JInt li), (''date'', JInt 0),
      (''Amount'', JDict [(''currency'', JStr ''PFT''),
                          (''issuer'', JStr ''rnQUEEg8yyjrwk9FhyXpKavHyCRJM9BDMW''),
                          (''value'', JStr v)])]"

definition hashless_row :: "int \<Rightarrow> int \<Rightarrow> row" where
  "hashless_row li a =
     \<lparr>ledger_index = li, transaction_hash = JStr [], from_address = JStr ''rSender'',
      to_address = JStr ''rDest'', memo = [], amount = a,
      transaction_timestamp = Some (Datetime 946684800)\<rparr>"

text \<open>A ledger of one page with two such payments.\<close>

definition hashless_page :: remote where
  "hashless_page rq =
     Inr (response [JDict [(''tx'', JDict (hashless_tx 5 ''1''))],
                    JDict [(''tx'', JDict (hashless_tx 6 ''2''))]] None)"

section \<open>Basic facts about the model\<close>

lemma bind_Inr_iff: "bind m f = Inr y \<longleftrightarrow> (\<exists>x. m = Inr x \<and> f x = Inr y)"
  by (cases m) (simp_all add: bind_def)

lemma as_dict_Inr_iff: "as_dict j = Inr d \<longleftrightarrow> j = JDict d"
  by (cases j) simp_all

lemma is_token_payment_iff:
  "is_token_payment tx currency_code issuer \<longleftrightarrow>
     get tx ''TransactionType'' = Some (JStr ''Payment'') \<and>
     (\<exists>a. get tx ''Amount'' = Some (JDict a) \<and>
          get a ''issuer'' = Some (JStr issuer) \<and>
          get a ''currency'' = Some (JStr currency_code))"
  by (auto simp: is_token_payment_def split: option.splits json.splits)

lemma set_insert_or_ignore: "set (insert_or_ignore t r) \<subseteq> insert r (set t)"
  by (auto simp: insert_or_ignore_def)

text \<open>What one iteration of the \<^verbatim>\<open>for\<close> loop does when it does not raise.\<close>

lemma process_entry_Inr:
  assumes "process_entry entry (h, conn) = Inr (h', conn')"
  shows "\<exists>tx. entry_tx entry = Some tx \<and>
           (if tracked tx
            then \<exists>r. persists_as tx r \<and>
                     conn' = conn\<lparr>pending := insert_or_ignore (pending conn) r\<rparr>
            else conn' = conn)"
proof -
  from assms obtain e tx li where e: "entry = JDict e"
    and tx: "get_default e ''tx'' (JDict []) = JDict tx"
    and li: "comparable_int (get_default tx ''ledger_index'' (JInt 0)) = Inr li"
    and rest: "(if is_token_payment tx CURRENCY_CODE ISSUER_ADDRESS then
        bind (amount_to_int (value_str_of tx)) (\<lambda>amount_int.
            bind (tx_datetime_of tx) (\<lambda>tx_datetime.
            bind (extract_memos tx) (\<lambda>memo_str.
            Inr (if li > h then li else h,
                 insert_transaction conn li (get_default tx ''hash'' (JStr []))
                   (get_default tx ''Account'' (JStr []))
                   (get_default tx ''Destination'' (JStr []))
                   memo_str amount_int tx_datetime))))
      else Inr (if li > h then li else h, conn)) = Inr (h', conn')"
    by (auto simp: process_entry_def bind_Inr_iff as_dict_Inr_iff Let_def cong: if_cong)
  have etx: "entry_tx entry = Some tx" using e tx by (simp add: entry_tx_def)
  show ?thesis
  proof (cases "tracked tx")
    case False
    with rest have "conn' = conn" by (simp add: tracked_def)
    with False etx show ?thesis by simp
  next
    case True
    with rest obtain a d m where a: "amount_to_int (value_str_of tx) = Inr a"
      and d: "tx_datetime_of tx = Inr d" and m: "extract_memos tx = Inr m"
      and c: "conn' = insert_transaction conn li (get_default tx ''hash'' (JStr []))
                (get_default tx ''Account'' (JStr []))
                (get_default tx ''Destination'' (JStr [])) m a d"
      by (auto simp: tracked_def bind_Inr_iff)
    let ?r = "\<lparr>ledger_index = li, transaction_hash = get_default tx ''hash'' (JStr []),
        from_address = get_default tx ''Account'' (JStr []),
        to_address = get_default tx ''Destination'' (JStr []), memo = m,
        amount = a, transaction_timestamp = d\<rparr>"
    have "persists_as tx ?r" using li a d m by (simp add: persists_as_def)
    moreover have "conn' = conn\<lparr>pending := insert_or_ignore (pending conn) ?r\<rparr>"
      using c by (simp add: insert_transaction_def)
    ultimately show ?thesis using True etx by auto
  qed
qed

subsection \<open>Reasoning about the fetch loop\<close>

lemma fetch_loop_unfold:
  "fetch_loop remote lim m h c =
     (case fetch_account_transactions remote ACCOUNT_TO_CHECK lim 1000 m of
        Inl e \<Rightarrow> Some (Inl e, committed c)
      | Inr (batch, nm) \<Rightarrow>
          (case page_result batch (h, c) of
             Inl e \<Rightarrow> Some (Inl e, committed c)
           | Inr (h1, c1) \<Rightarrow>
               if truthy nm then fetch_loop remote lim nm h1 (commit c1)
               else Some (Inr h1, pending c1)))"
  by (subst fetch_loop.simps)
     (simp add: commit_def Let_def split: sum.splits prod.splits)

lemma fetch_loop_fetch_failed:
  "fetch_account_transactions remote ACCOUNT_TO_CHECK lim 1000 m = Inl e \<Longrightarrow>
   fetch_loop remote lim m h c = Some (Inl e, committed c)"
  by (simp add: fetch_loop_unfold)

lemma fetch_loop_page_failed:
  "fetch_account_transactions remote ACCOUNT_TO_CHECK lim 1000 m = Inr (batch, nm) \<Longrightarrow>
   page_result batch (h, c) = Inl e \<Longrightarrow>
   fetch_loop remote lim m h c = Some (Inl e, committed c)"
  by (simp add: fetch_loop_unfold)

lemma fetch_loop_last_page:
  "fetch_account_transactions remote ACCOUNT_TO_CHECK lim 1000 m = Inr (batch, nm) \<Longrightarrow>
   page_result batch (h, c) = Inr (h1, c1) \<Longrightarrow> \<not> truthy nm \<Longrightarrow>
   fetch_loop remote lim m h c = Some (Inr h1, pending c1)"
  by (simp add: fetch_loop_unfold)

lemma fetch_loop_next_page:
  "fetch_account_transactions remote ACCOUNT_TO_CHECK lim 1000 m = Inr (batch, nm) \<Longrightarrow>
   page_result batch (h, c) = Inr (h1, c1) \<Longrightarrow> truthy nm \<Longrightarrow>
   fetch_loop remote lim m h c = fetch_loop remote lim nm h1 (commit c1)"
  by (subst fetch_loop_unfold) simp

text \<open>
  Induction over the iterations of a run that returns, for a fixed ledger and lower bound:
  one case for each way an iteration ends.
\<close>

lemma fetch_loop_induct [consumes 1, case_names fetch_failed page_failed last_page next_page]:
  assumes run: "fetch_loop remote lim m h c = Some y"
    and fetch_failed: "\<And>m h c e.
      fetch_account_transactions remote ACCOUNT_TO_CHECK lim 1000 m = Inl e \<Longrightarrow>
      P m h c (Inl e, committed c)"
    and page_failed: "\<And>m h c batch nm e.
      fetch_account_transactions remote ACCOUNT_TO_CHECK lim 1000 m = Inr (batch, nm) \<Longrightarrow>
      page_result batch (h, c) = Inl e \<Longrightarrow> P m h c (Inl e, committed c)"
    and last_page: "\<And>m h c batch nm h1 c1.
      fetch_account_transactions remote ACCOUNT_TO_CHECK lim 1000 m = Inr (batch, nm) \<Longrightarrow>
      page_result batch (h, c) = Inr (h1, c1) \<Longrightarrow> \<not> truthy nm \<Longrightarrow>
      P m h c (Inr h1, pending c1)"
    and next_page: "\<And>m h c batch nm h1 c1 y.
      fetch_account_transactions remote ACCOUNT_TO_CHECK lim 1000 m = Inr (batch, nm) \<Longrightarrow>
      page_result batch (h, c) = Inr (h1, c1) \<Longrightarrow> truthy nm \<Longrightarrow>
      fetch_loop remote lim nm h1 (commit c1) = Some y \<Longrightarrow>
      P nm h1 (commit c1) y \<Longrightarrow> P m h c y"
  shows "P m h c y"
proof -
  have "remote = remote \<and> lim = lim \<longrightarrow> fetch_loop remote lim m h c = Some y \<and> P m h c y"
  proof (rule fetch_loop.raw_induct[where P = "\<lambda>remote' lim' m h c y.
           remote' = remote \<and> lim' = lim \<longrightarrow> fetch_loop remote lim m h c = Some y \<and> P m h c y",
           OF _ run])
    fix loop remote' lim' m h c y
    assume IH: "\<And>remote' lim' m h c y. loop remote' lim' m h c = Some y \<Longrightarrow>
         remote' = remote \<and> lim' = lim \<longrightarrow> fetch_loop remote lim m h c = Some y \<and> P m h c y"
      and step: "(case fetch_account_transactions remote' ACCOUNT_TO_CHECK lim' 1000 m of
        Inl e \<Rightarrow> Some (Inl e, committed c)
      | Inr (transactions_batch, next_marker) \<Rightarrow>
          (case page_result transactions_batch (h, c) of
             Inl e \<Rightarrow> Some (Inl e, committed c)
           | Inr (highest, conn') \<Rightarrow>
               (let conn'' = commit conn' in
                if \<not> truthy next_marker then Some (Inr highest, committed conn'')
                else loop remote' lim' next_marker highest conn''))) = Some y"
    show "remote' = remote \<and> lim' = lim \<longrightarrow> fetch_loop remote lim m h c = Some y \<and> P m h c y"
    proof (intro impI)
      assume eq: "remote' = remote \<and> lim' = lim"
      show "fetch_loop remote lim m h c = Some y \<and> P m h c y"
      proof (cases "fetch_account_transactions remote ACCOUNT_TO_CHECK lim 1000 m")
        case (Inl e)
        with step eq have "y = (Inl e, committed c)" by auto
        with Inl fetch_failed[OF Inl] show ?thesis by (simp add: fetch_loop_unfold)
      next
        case (Inr page)
        obtain batch nm where page: "page = (batch, nm)" by (cases page)
        note fetched = Inr[unfolded page]
        show ?thesis
        proof (cases "page_result batch (h, c)")
          case (Inl e)
          with step eq fetched have "y = (Inl e, committed c)" by auto
          with Inl fetched page_failed[OF fetched Inl] show ?thesis
            by (simp add: fetch_loop_unfold)
        next
          case (Inr st)
          obtain h1 c1 where st: "st = (h1, c1)" by (cases st)
          note paged = Inr[unfolded st]
          show ?thesis
          proof (cases "truthy nm")
            case False
            with step eq fetched paged have "y = (Inr h1, pending c1)"
              by (auto simp: commit_def)
            with False fetched paged last_page[OF fetched paged False] show ?thesis
              by (simp add: fetch_loop_unfold)
          next
            case True
            with step eq fetched paged have "loop remote lim nm h1 (commit c1) = Some y"
              by auto
            from IH[OF this] have rec: "fetch_loop remote lim nm h1 (commit c1) = Some y"
              and P: "P nm h1 (commit c1) y" by simp_all
            from True fetched paged rec next_page[OF fetched paged True rec P] show ?thesis
              by (simp add: fetch_loop_unfold)
          qed
        qed
      qed
    qed
  qed
  then show ?thesis by simp
qed

lemma main_unfold:
  "main remote stored =
     fetch_loop remote (get_last_stored_ledger_index \<lparr>pending = stored, committed = stored\<rparr> + 1)
       JNull (get_last_stored_ledger_index \<lparr>pending = stored, committed = stored\<rparr> + 1)
       \<lparr>pending = stored, committed = stored\<rparr>"
  by (simp add: main_def Let_def)

subsection \<open>The example run\<close>

lemma two_pages_run:
  "main two_pages [] = Some (Inr 8, [payment_row ''A'' 5 1, payment_row ''B'' 7 2])"
proof -
  have lim: "get_last_stored_ledger_index \<lparr>pending = [], committed = []\<rparr> + 1 = 0"
    by code_simp
  have f1: "fetch_account_transactions two_pages ACCOUNT_TO_CHECK 0 1000 JNull
      = Inr (JList [payment_entry ''A'' 5 ''1.5''], JInt 1)"
    by code_simp
  have p1: "page_result (JList [payment_entry ''A'' 5 ''1.5'']) (0, \<lparr>pending = [], committed = []\<rparr>)
      = Inr (5, \<lparr>pending = [payment_row ''A'' 5 1], committed = []\<rparr>)"
    by code_simp
  have f2: "fetch_account_transactions two_pages ACCOUNT_TO_CHECK 0 1000 (JInt 1)
      = Inr (JList [payment_entry ''B'' 7 ''2.5'', payment_entry ''A'' 8 ''3''], JNull)"
    by code_simp
  have p2: "page_result (JList [payment_entry ''B'' 7 ''2.5'', payment_entry ''A'' 8 ''3''])
        (5, commit \<lparr>pending = [payment_row ''A'' 5 1], committed = []\<rparr>)
      = Inr (8, \<lparr>pending = [payment_row ''A'' 5 1, payment_row ''B'' 7 2],
                 committed = [payment_row ''A'' 5 1]\<rparr>)"
    by code_simp
  show ?thesis
    unfolding main_unfold lim
    by (simp add: fetch_loop_next_page[OF f1 p1] fetch_loop_last_page[OF f2 p2])
qed

lemma mixed_page_run:
  "main mixed_page [] = Some (Inr 9, [payment_row ''A'' 5 1])"
proof -
  have lim: "get_last_stored_ledger_index \<lparr>pending = [], committed = []\<rparr> + 1 = 0"
    by code_simp
  have f1: "fetch_account_transactions mixed_page ACCOUNT_TO_CHECK 0 1000 JNull
      = Inr (JList [payment_entry ''A'' 5 ''1.5'', JDict [(''tx'', JDict other_currency_tx)]], JNull)"
    by code_simp
  have p1: "page_result (JList [payment_entry ''A'' 5 ''1.5'', JDict [(''tx'', JDict other_currency_tx)]])
        (0, \<lparr>pending = [], committed = []\<rparr>)
      = Inr (9, \<lparr>pending = [payment_row ''A'' 5 1], committed = []\<rparr>)"
    by code_simp
  show ?thesis
    unfolding main_unfold lim
    by (simp add: fetch_loop_last_page[OF f1 p1])
qed

subsection \<open>Rows and the entries they come from\<close>

lemma entry_tx_Some_iff:
  "entry_tx entry = Some tx \<longleftrightarrow> (\<exists>e. entry = JDict e \<and> get_default e ''tx'' (JDict []) = JDict tx)"
  by (auto simp: entry_tx_def split: json.splits)

text \<open>The two total cases of one iteration of the \<^verbatim>\<open>for\<close> loop.\<close>

lemma process_entry_rejected:
  assumes "entry_tx entry = Some tx" and "\<not> tracked tx"
  shows "process_entry entry (h, conn) =
           (case comparable_int (get_default tx ''ledger_index'' (JInt 0)) of
              Inl e \<Rightarrow> Inl e
            | Inr li \<Rightarrow> Inr (max h li, conn))"
proof -
  from assms(1) obtain e where e: "entry = JDict e" "get_default e ''tx'' (JDict []) = JDict tx"
    by (auto simp: entry_tx_Some_iff)
  from assms(2) have nt: "\<not> is_token_payment tx CURRENCY_CODE ISSUER_ADDRESS"
    by (simp add: tracked_def)
  show ?thesis
    using e nt
    by (cases "comparable_int (get_default tx ''ledger_index'' (JInt 0))")
       (auto simp: process_entry_def bind_def Let_def max_def)
qed

lemma process_entry_accepted:
  assumes "entry_tx entry = Some tx" and "tracked tx" and "persists_as tx r"
  shows "process_entry entry (h, conn) =
           Inr (max h (ledger_index r), conn\<lparr>pending := insert_or_ignore (pending conn) r\<rparr>)"
proof -
  from assms(1) obtain e where e: "entry = JDict e" "get_default e ''tx'' (JDict []) = JDict tx"
    by (auto simp: entry_tx_Some_iff)
  from assms(2) have t: "is_token_payment tx CURRENCY_CODE ISSUER_ADDRESS"
    by (simp add: tracked_def)
  have r: "r = \<lparr>ledger_index = ledger_index r, transaction_hash = get_default tx ''hash'' (JStr []),
        from_address = get_default tx ''Account'' (JStr []),
        to_address = get_default tx ''Destination'' (JStr []), memo = memo r,
        amount = amount r, transaction_timestamp = transaction_timestamp r\<rparr>"
    using assms(3) by (simp add: persists_as_def)
  show ?thesis
    using e t assms(3)
    by (subst (2) r)
       (auto simp: process_entry_def persists_as_def bind_def Let_def max_def
          insert_transaction_def)
qed

lemma tracked_rows_of_mono: "A \<subseteq> B \<Longrightarrow> tracked_rows_of A \<subseteq> tracked_rows_of B"
  by (auto simp: tracked_rows_of_def)

lemma process_batch_tied:
  "process_batch es (h, c) = Inr (h', c') \<Longrightarrow>
     committed c' = committed c \<and>
     set (pending c') \<subseteq> set (pending c) \<union> tracked_rows_of (set es)"
proof (induction es arbitrary: h c)
  case Nil
  then show ?case by simp
next
  case (Cons e es)
  from Cons.prems obtain h1 c1 where e: "process_entry e (h, c) = Inr (h1, c1)"
    and es: "process_batch es (h1, c1) = Inr (h', c')"
    by (auto split: sum.splits)
  from process_entry_Inr[OF e] have
    "committed c1 = committed c \<and> set (pending c1) \<subseteq> set (pending c) \<union> tracked_rows_of {e}"
    using set_insert_or_ignore[of "pending c"]
    by (fastforce simp: tracked_rows_of_def split: if_splits)
  then have c1: "committed c1 = committed c"
    and p1: "set (pending c1) \<subseteq> set (pending c) \<union> tracked_rows_of {e}" by simp_all
  from Cons.IH[OF es] have c2: "committed c' = committed c1"
    and p2: "set (pending c') \<subseteq> set (pending c1) \<union> tracked_rows_of (set es)" by simp_all
  have m1: "tracked_rows_of {e} \<subseteq> tracked_rows_of (set (e # es))"
    and m2: "tracked_rows_of (set es) \<subseteq> tracked_rows_of (set (e # es))"
    by (auto intro!: tracked_rows_of_mono)
  from p1 p2 m1 m2 have "set (pending c') \<subseteq> set (pending c) \<union> tracked_rows_of (set (e # es))"
    by blast
  with c1 c2 show ?case by simp
qed

lemma page_result_tied:
  assumes "page_result batch (h, c) = Inr (h', c')"
  obtains es where "py_iter batch = Inr es" and "committed c' = committed c"
    and "set (pending c') \<subseteq> set (pending c) \<union> tracked_rows_of (set es)"
proof -
  from assms obtain es where it: "py_iter batch = Inr es"
    and pb: "process_batch es (h, c) = Inr (h', c')"
    by (auto simp: page_result_def bind_Inr_iff)
  from process_batch_tied[OF pb] it that show ?thesis by blast
qed

lemma loop_states_trans:
  assumes "s \<in> loop_states remote lim s1" and "s1 \<in> loop_states remote lim s0"
  shows "s \<in> loop_states remote lim s0"
  using assms
proof (induction rule: loop_states.induct)
  case start
  then show ?case by simp
next
  case (step m h c batch nm h1 c1)
  then show ?case by (blast intro: loop_states.step)
qed

lemma loop_states_next:
  assumes "fetch_account_transactions remote ACCOUNT_TO_CHECK lim 1000 m = Inr (batch, nm)"
    and "page_result batch (h, c) = Inr (h1, c1)" and "truthy nm"
  shows "loop_states remote lim (nm, h1, commit c1) \<subseteq> loop_states remote lim (m, h, c)"
proof
  fix s assume "s \<in> loop_states remote lim (nm, h1, commit c1)"
  moreover have "(nm, h1, commit c1) \<in> loop_states remote lim (m, h, c)"
    using assms by (blast intro: loop_states.intros)
  ultimately show "s \<in> loop_states remote lim (m, h, c)" by (rule loop_states_trans)
qed

lemma served_next:
  assumes "fetch_account_transactions remote ACCOUNT_TO_CHECK lim 1000 m = Inr (batch, nm)"
    and "page_result batch (h, c) = Inr (h1, c1)" and "truthy nm"
  shows "served remote lim (nm, h1, commit c1) \<subseteq> served remote lim (m, h, c)"
  using loop_states_next[OF assms] unfolding served_def by blast

lemma served_first:
  assumes "fetch_account_transactions remote ACCOUNT_TO_CHECK lim 1000 m = Inr (batch, nm)"
    and "py_iter batch = Inr es"
  shows "set es \<subseteq> served remote lim (m, h, c)"
  using assms unfolding served_def by (blast intro: loop_states.start)

text \<open>Every state of a run: nothing is pending, and what is committed is tied to the pages.\<close>

lemma loop_states_rows:
  assumes "s \<in> loop_states remote lim (m0, h0, c0)" and "pending c0 = committed c0"
  shows "pending (snd (snd s)) = committed (snd (snd s)) \<and>
         set (committed (snd (snd s))) \<subseteq>
           set (committed c0) \<union> tracked_rows_of (served remote lim (m0, h0, c0))"
  using assms
proof (induction rule: loop_states.induct)
  case start
  then show ?case by simp
next
  case (step m h c batch nm h1 c1)
  from step.IH step.prems have ih: "pending c = committed c"
    "set (committed c) \<subseteq> set (committed c0) \<union> tracked_rows_of (served remote lim (m0, h0, c0))"
    by simp_all
  from step.hyps(3) obtain es where es: "py_iter batch = Inr es"
    and rows: "set (pending c1) \<subseteq> set (pending c) \<union> tracked_rows_of (set es)"
    by (rule page_result_tied)
  have "set es \<subseteq> served remote lim (m0, h0, c0)"
    unfolding served_def using step.hyps(1,2) es by blast
  then have "tracked_rows_of (set es) \<subseteq> tracked_rows_of (served remote lim (m0, h0, c0))"
    by (rule tracked_rows_of_mono)
  with rows ih show ?case by (auto simp: commit_def)
qed

lemma fetch_loop_tied:
  assumes "fetch_loop remote lim m h c = Some y" and "pending c = committed c"
  shows "set (snd y) \<subseteq> set (committed c) \<union> tracked_rows_of (served remote lim (m, h, c))"
  using assms
proof (induction rule: fetch_loop_induct)
  case (last_page m h c batch nm h1 c1)
  from last_page(2) obtain es where es: "py_iter batch = Inr es"
    and rows: "set (pending c1) \<subseteq> set (pending c) \<union> tracked_rows_of (set es)"
    by (rule page_result_tied)
  from served_first[OF last_page(1) es]
  have "tracked_rows_of (set es) \<subseteq> tracked_rows_of (served remote lim (m, h, c))"
    by (rule tracked_rows_of_mono)
  with rows last_page.prems show ?case by auto
next
  case (next_page m h c batch nm h1 c1 y)
  from next_page(2) obtain es where es: "py_iter batch = Inr es"
    and rows: "set (pending c1) \<subseteq> set (pending c) \<union> tracked_rows_of (set es)"
    by (rule page_result_tied)
  from served_first[OF next_page(1) es]
  have a: "tracked_rows_of (set es) \<subseteq> tracked_rows_of (served remote lim (m, h, c))"
    by (rule tracked_rows_of_mono)
  from served_next[OF next_page(1,2,3)]
  have b: "tracked_rows_of (served remote lim (nm, h1, commit c1))
             \<subseteq> tracked_rows_of (served remote lim (m, h, c))"
    by (rule tracked_rows_of_mono)
  from next_page.IH have "set (snd y) \<subseteq> set (committed (commit c1)) \<union>
      tracked_rows_of (served remote lim (nm, h1, commit c1))"
    by (simp add: commit_def)
  with a b rows next_page.prems show ?case by (auto simp: commit_def)
qed simp_all

section \<open>Payment filter: only tracked payments are persisted\<close>

text \<open>
  C2. Filter precision. The filter accepts a transaction exactly when its type is
  \<^verbatim>\<open>Payment\<close>, its amount is a dict, and the issuer and currency of that dict equal the
  configured values; a payment in another currency from the same issuer fails the last
  condition. An entry whose transaction the filter rejects only updates the highest ledger
  index seen (or raises on a ledger index that is not an int) and leaves the connection as
  it was. At every state of a run, and when a run returns, every row in storage that was not
  there before the run is the row of a transaction that the filter accepts and that stands
  in an entry of a page the ledger returned to this run.
\<close>

theorem filter_precision:
  "(is_token_payment tx currency_code issuer \<longleftrightarrow>
      get tx ''TransactionType'' = Some (JStr ''Payment'') \<and>
      (\<exists>a. get tx ''Amount'' = Some (JDict a) \<and>
           get a ''issuer'' = Some (JStr issuer) \<and>
           get a ''currency'' = Some (JStr currency_code))) \<and>
   (entry_tx entry = Some tx \<longrightarrow> \<not> is_token_payment tx CURRENCY_CODE ISSUER_ADDRESS \<longrightarrow>
      process_entry entry (h, conn) =
        (case comparable_int (get_default tx ''ledger_index'' (JInt 0)) of
           Inl e \<Rightarrow> Inl e
         | Inr li \<Rightarrow> Inr (max h li, conn))) \<and>
   ((m, h', c) \<in> run_states remote stored \<longrightarrow>
      pending c = committed c \<and>
      (\<forall>r \<in> set (committed c). r \<in> set stored \<or>
         (\<exists>e tx'. e \<in> run_served remote stored \<and> entry_tx e = Some tx' \<and>
                  is_token_payment tx' CURRENCY_CODE ISSUER_ADDRESS \<and> persists_as tx' r))) \<and>
   (main remote stored = Some (outcome, stored') \<longrightarrow>
      (\<forall>r \<in> set stored'. r \<in> set stored \<or>
         (\<exists>e tx'. e \<in> run_served remote stored \<and> entry_tx e = Some tx' \<and>
                  is_token_payment tx' CURRENCY_CODE ISSUER_ADDRESS \<and> persists_as tx' r)))"
proof (intro conjI impI)
  show "is_token_payment tx currency_code issuer \<longleftrightarrow>
      get tx ''TransactionType'' = Some (JStr ''Payment'') \<and>
      (\<exists>a. get tx ''Amount'' = Some (JDict a) \<and>
           get a ''issuer'' = Some (JStr issuer) \<and>
           get a ''currency'' = Some (JStr currency_code))"
    by (rule is_token_payment_iff)
next
  assume "entry_tx entry = Some tx" "\<not> is_token_payment tx CURRENCY_CODE ISSUER_ADDRESS"
  then show "process_entry entry (h, conn) =
        (case comparable_int (get_default tx ''ledger_index'' (JInt 0)) of
           Inl e \<Rightarrow> Inl e
         | Inr li \<Rightarrow> Inr (max h li, conn))"
    by (intro process_entry_rejected) (simp_all add: tracked_def)
next
  assume s: "(m, h', c) \<in> run_states remote stored"
  from s[unfolded run_states_def initial_state_def]
  have "pending (snd (snd (m, h', c))) = committed (snd (snd (m, h', c))) \<and>
        set (committed (snd (snd (m, h', c)))) \<subseteq>
          set (committed \<lparr>pending = stored, committed = stored\<rparr>) \<union>
          tracked_rows_of (run_served remote stored)"
    unfolding run_served_def initial_state_def by (rule loop_states_rows) simp
  then show "pending c = committed c"
    and "\<forall>r \<in> set (committed c). r \<in> set stored \<or>
         (\<exists>e tx'. e \<in> run_served remote stored \<and> entry_tx e = Some tx' \<and>
                  is_token_payment tx' CURRENCY_CODE ISSUER_ADDRESS \<and> persists_as tx' r)"
    by (auto simp: tracked_rows_of_def tracked_def)
next
  assume run: "main remote stored = Some (outcome, stored')"
  from run[unfolded main_unfold]
  have "set (snd (outcome, stored')) \<subseteq>
          set (committed \<lparr>pending = stored, committed = stored\<rparr>) \<union>
          tracked_rows_of (run_served remote stored)"
    unfolding run_served_def initial_state_def by (rule fetch_loop_tied) simp
  then show "\<forall>r \<in> set stored'. r \<in> set stored \<or>
         (\<exists>e tx'. e \<in> run_served remote stored \<and> entry_tx e = Some tx' \<and>
                  is_token_payment tx' CURRENCY_CODE ISSUER_ADDRESS \<and> persists_as tx' r)"
    by (auto simp: tracked_rows_of_def tracked_def)
qed

text \<open>
  On the page that holds a tracked payment and a payment of the same issuer in another
  currency, started on empty storage: the run stores the tracked payment only, its row is
  the row of an accepted entry of the page, and the other payment is rejected and changes
  nothing.
\<close>

theorem filter_precision_witness:
  "main mixed_page [] = Some (Inr 9, [payment_row ''A'' 5 1]) \<and>
   (\<exists>e tx'. e \<in> run_served mixed_page [] \<and> entry_tx e = Some tx' \<and>
            is_token_payment tx' CURRENCY_CODE ISSUER_ADDRESS \<and>
            persists_as tx' (payment_row ''A'' 5 1)) \<and>
   entry_tx (JDict [(''tx'', JDict other_currency_tx)]) = Some other_currency_tx \<and>
   \<not> is_token_payment other_currency_tx CURRENCY_CODE ISSUER_ADDRESS \<and>
   process_entry (JDict [(''tx'', JDict other_currency_tx)])
     (0, \<lparr>pending = [payment_row ''A'' 5 1], committed = []\<rparr>)
     = Inr (9, \<lparr>pending = [payment_row ''A'' 5 1], committed = []\<rparr>) \<and>
   initial_state [] \<in> run_states mixed_page []"
proof -
  have run: "main mixed_page [] = Some (Inr 9, [payment_row ''A'' 5 1])"
    by (rule mixed_page_run)
  have rej: "\<not> is_token_payment other_currency_tx CURRENCY_CODE ISSUER_ADDRESS"
    by code_simp
  have etx: "entry_tx (JDict [(''tx'', JDict other_currency_tx)]) = Some other_currency_tx"
    by code_simp
  have li: "comparable_int (get_default other_currency_tx ''ledger_index'' (JInt 0)) = Inr 9"
    by code_simp
  have st: "initial_state [] \<in> run_states mixed_page []"
    unfolding run_states_def by (rule loop_states.start)
  note inst = filter_precision[of other_currency_tx CURRENCY_CODE ISSUER_ADDRESS
      "JDict [(''tx'', JDict other_currency_tx)]" 0
      "\<lparr>pending = [payment_row ''A'' 5 1], committed = []\<rparr>"
      JNull 0 "\<lparr>pending = [], committed = []\<rparr>" mixed_page "[]"
      "Inr 9" "[payment_row ''A'' 5 1]"]
  from inst run have "\<exists>e tx'. e \<in> run_served mixed_page [] \<and> entry_tx e = Some tx' \<and>
            is_token_payment tx' CURRENCY_CODE ISSUER_ADDRESS \<and>
            persists_as tx' (payment_row ''A'' 5 1)"
    by simp
  moreover from inst etx rej li have "process_entry (JDict [(''tx'', JDict other_currency_tx)])
     (0, \<lparr>pending = [payment_row ''A'' 5 1], committed = []\<rparr>)
     = Inr (9, \<lparr>pending = [payment_row ''A'' 5 1], committed = []\<rparr>)"
    by simp
  ultimately show ?thesis using run rej etx st by simp
qed

subsection \<open>The cursor\<close>

lemma sql_max_eq: "sql_max xs = (if xs = [] then None else Some (Max (set xs)))"
proof (induction xs)
  case Nil
  then show ?case by simp
next
  case (Cons x xs)
  then show ?case by (cases "xs = []") (simp_all add: max.commute)
qed

lemma get_last_stored_ledger_index_eq:
  "get_last_stored_ledger_index conn =
     (if pending conn = [] then - 1 else Max (ledger_index ` set (pending conn)))"
  by (simp add: get_last_stored_ledger_index_def sql_max_eq)

subsection \<open>The loop depends on the ledger through its requests only\<close>

lemma fetch_request:
  "fetch_account_transactions remote a lim l m =
     bind (remote \<lparr>account = a, ledger_index_min = lim, ledger_index_max = - 1, limit = l,
                   marker = (if truthy m then Some m else None)\<rparr>) (\<lambda>response_json.
     bind (result_envelope response_json) (\<lambda>result.
     bind (as_dict result) (\<lambda>result.
     Inr (get_default result ''transactions'' (JList []),
          get_default result ''marker'' JNull))))"
  by (simp add: fetch_account_transactions_def Let_def)

lemma fetch_agree:
  assumes "\<And>rq. run_request lim rq \<Longrightarrow> remote' rq = remote rq"
  shows "fetch_account_transactions remote' ACCOUNT_TO_CHECK lim 1000 m =
         fetch_account_transactions remote ACCOUNT_TO_CHECK lim 1000 m"
  unfolding fetch_request by (subst assms) (simp_all add: run_request_def)

lemma fetch_loop_agree_Some:
  assumes "fetch_loop remote lim m h c = Some y"
    and "\<And>rq. run_request lim rq \<Longrightarrow> remote' rq = remote rq"
  shows "fetch_loop remote' lim m h c = Some y"
  using assms(1)
proof (induction rule: fetch_loop_induct)
  case (fetch_failed m h c e)
  then show ?case by (simp add: fetch_loop_fetch_failed fetch_agree[OF assms(2)])
next
  case (page_failed m h c batch nm e)
  then show ?case
    by (intro fetch_loop_page_failed[of _ _ _ batch nm]) (simp_all add: fetch_agree[OF assms(2)])
next
  case (last_page m h c batch nm h1 c1)
  then show ?case
    by (intro fetch_loop_last_page[of _ _ _ batch nm]) (simp_all add: fetch_agree[OF assms(2)])
next
  case (next_page m h c batch nm h1 c1 y)
  have "fetch_loop remote' lim m h c = fetch_loop remote' lim nm h1 (commit c1)"
    using next_page(1,2,3)
    by (intro fetch_loop_next_page[of _ _ _ batch]) (simp_all add: fetch_agree[OF assms(2)])
  with next_page.IH show ?case by simp
qed

lemma fetch_loop_agree:
  assumes "\<And>rq. run_request lim rq \<Longrightarrow> remote' rq = remote rq"
  shows "fetch_loop remote' lim m h c = fetch_loop remote lim m h c"
proof (cases "fetch_loop remote lim m h c")
  case (Some y)
  with fetch_loop_agree_Some[OF Some assms] show ?thesis by simp
next
  case None
  show ?thesis
  proof (cases "fetch_loop remote' lim m h c")
    case (Some y)
    from fetch_loop_agree_Some[OF Some, of remote] assms None show ?thesis by simp
  qed (simp add: None)
qed

subsection \<open>The states of a run and its result\<close>

lemma loop_states_fetch_loop:
  assumes "(m, h, c) \<in> loop_states remote lim (m0, h0, c0)"
  shows "fetch_loop remote lim m0 h0 c0 = fetch_loop remote lim m h c"
  using assms
proof (induction m h c rule: loop_states.induct[split_format (complete)])
  case start
  then show ?case by simp
next
  case (step m h c batch nm h1 c1)
  from step.hyps have "fetch_loop remote lim m h c = fetch_loop remote lim nm h1 (commit c1)"
    by (intro fetch_loop_next_page[of _ _ _ batch]) simp_all
  with step.IH show ?case by simp
qed

lemma run_states_main:
  assumes "(m, h, c) \<in> run_states remote stored"
  shows "main remote stored =
           fetch_loop remote
             (get_last_stored_ledger_index \<lparr>pending = stored, committed = stored\<rparr> + 1) m h c"
  using assms unfolding run_states_def initial_state_def main_unfold
  by (rule loop_states_fetch_loop)

subsection \<open>Normal return of the loop\<close>

lemma final_state_next:
  assumes "fetch_account_transactions remote ACCOUNT_TO_CHECK lim 1000 m = Inr (batch, nm)"
    and "page_result batch (h, c) = Inr (h1, c1)" and "truthy nm"
    and "final_state remote lim (nm, h1, commit c1) hf T s"
  shows "final_state remote lim (m, h, c) hf T s"
  using assms(4) loop_states_next[OF assms(1,2,3)] unfolding final_state_def by blast

lemma fetch_loop_returns:
  assumes "fetch_loop remote lim m h c = Some y"
  shows "y = (Inr hf, T) \<longrightarrow> (\<exists>s. final_state remote lim (m, h, c) hf T s)"
  using assms
proof (induction rule: fetch_loop_induct)
  case (last_page m h c batch nm h1 c1)
  show ?case
  proof
    assume "(Inr h1, pending c1) = (Inr hf, T)"
    then have eq: "h1 = hf" "T = pending c1" by simp_all
    have "(m, h, c) \<in> loop_states remote lim (m, h, c)" by (rule loop_states.start)
    with last_page eq have "final_state remote lim (m, h, c) hf T (m, h, c)"
      unfolding final_state_def by auto
    then show "\<exists>s. final_state remote lim (m, h, c) hf T s" ..
  qed
next
  case (next_page m h c batch nm h1 c1 y)
  show ?case
  proof
    assume "y = (Inr hf, T)"
    with next_page.IH obtain s where "final_state remote lim (nm, h1, commit c1) hf T s" by blast
    from final_state_next[OF next_page(1,2,3) this]
    show "\<exists>s. final_state remote lim (m, h, c) hf T s" ..
  qed
qed simp_all

lemma fetch_loop_returns_iff:
  "fetch_loop remote lim m h c = Some (Inr hf, T) \<longleftrightarrow>
     (\<exists>s. final_state remote lim (m, h, c) hf T s)"
proof
  assume "fetch_loop remote lim m h c = Some (Inr hf, T)"
  from fetch_loop_returns[OF this, of hf T] show "\<exists>s. final_state remote lim (m, h, c) hf T s"
    by simp
next
  assume "\<exists>s. final_state remote lim (m, h, c) hf T s"
  then obtain m' h' c' batch nm c1 where s: "(m', h', c') \<in> loop_states remote lim (m, h, c)"
    and f: "fetch_account_transactions remote ACCOUNT_TO_CHECK lim 1000 m' = Inr (batch, nm)"
    and p: "page_result batch (h', c') = Inr (hf, c1)" and n: "\<not> truthy nm" and T: "T = pending c1"
    unfolding final_state_def by auto
  from loop_states_fetch_loop[OF s] fetch_loop_last_page[OF f p n] T
  show "fetch_loop remote lim m h c = Some (Inr hf, T)" by simp
qed

lemma falsy_iff: "\<not> truthy v \<longleftrightarrow> v = JNull \<or> v = JInt 0 \<or> v = JStr [] \<or> v = JList [] \<or> v = JDict []"
  by (cases v) auto

subsection \<open>Unique transaction hashes\<close>

lemma distinct_insert_or_ignore:
  "distinct (map transaction_hash t) \<Longrightarrow> distinct (map transaction_hash (insert_or_ignore t r))"
  by (auto simp: insert_or_ignore_def list_ex_iff)

lemma process_batch_distinct:
  "process_batch es (h, c) = Inr (h', c') \<Longrightarrow> distinct (map transaction_hash (pending c)) \<Longrightarrow>
     distinct (map transaction_hash (pending c'))"
proof (induction es arbitrary: h c)
  case Nil
  then show ?case by simp
next
  case (Cons e es)
  from Cons.prems(1) obtain h1 c1 where e: "process_entry e (h, c) = Inr (h1, c1)"
    and es: "process_batch es (h1, c1) = Inr (h', c')"
    by (auto split: sum.splits)
  from process_entry_Inr[OF e] Cons.prems(2)
  have "distinct (map transaction_hash (pending c1))"
    by (auto simp: distinct_insert_or_ignore split: if_splits)
  with Cons.IH[OF es] show ?case .
qed

lemma page_result_distinct:
  assumes "page_result batch (h, c) = Inr (h', c')" and "distinct (map transaction_hash (pending c))"
  shows "distinct (map transaction_hash (pending c'))"
proof -
  from assms(1) obtain es where "process_batch es (h, c) = Inr (h', c')"
    by (auto simp: page_result_def bind_Inr_iff)
  from process_batch_distinct[OF this assms(2)] show ?thesis .
qed

lemma loop_states_distinct:
  assumes "s \<in> loop_states remote lim (m0, h0, c0)"
    and "distinct (map transaction_hash (pending c0))"
    and "distinct (map transaction_hash (committed c0))"
  shows "distinct (map transaction_hash (pending (snd (snd s)))) \<and>
         distinct (map transaction_hash (committed (snd (snd s))))"
  using assms
proof (induction rule: loop_states.induct)
  case start
  then show ?case by simp
next
  case (step m h c batch nm h1 c1)
  then have "distinct (map transaction_hash (pending c))" by simp
  from page_result_distinct[OF step.hyps(3) this] show ?case by (simp add: commit_def)
qed

lemma fetch_loop_distinct:
  assumes "fetch_loop remote lim m h c = Some y"
    and "distinct (map transaction_hash (pending c))"
    and "distinct (map transaction_hash (committed c))"
  shows "distinct (map transaction_hash (snd y))"
  using assms
proof (induction rule: fetch_loop_induct)
  case (last_page m h c batch nm h1 c1)
  from page_result_distinct[OF last_page(2) last_page.prems(1)] show ?case by simp
next
  case (next_page m h c batch nm h1 c1 y)
  from page_result_distinct[OF next_page(2) next_page.prems(1)]
  have "distinct (map transaction_hash (pending c1))" .
  with next_page.IH show ?case by (simp add: commit_def)
qed simp_all

lemma distinct_at_most_one:
  "distinct (map f xs) \<Longrightarrow> length (filter (\<lambda>x. f x = v) xs) \<le> 1"
proof (induction xs)
  case Nil
  then show ?case by simp
next
  case (Cons x xs)
  show ?case
  proof (cases "f x = v")
    case True
    with Cons.prems have "filter (\<lambda>x. f x = v) xs = []"
      by (auto simp: filter_empty_conv intro: rev_image_eqI)
    with True show ?thesis by simp
  next
    case False
    with Cons show ?thesis by simp
  qed
qed

subsection \<open>A second run over entries already seen\<close>

lemma hashes_insert_or_ignore:
  "hashes (insert_or_ignore t r) = insert (transaction_hash r) (hashes t)"
  by (auto simp: hashes_def insert_or_ignore_def list_ex_iff intro: rev_image_eqI)

lemma insert_or_ignore_known:
  "transaction_hash r \<in> hashes t \<Longrightarrow> insert_or_ignore t r = t"
  by (auto simp: hashes_def insert_or_ignore_def list_ex_iff)

text \<open>After a page, the hash of each of its accepted entries is in the table.\<close>

lemma process_batch_hashes:
  "process_batch es (h, c) = Inr (h', c') \<Longrightarrow>
     hashes (pending c) \<subseteq> hashes (pending c') \<and>
     (\<forall>e \<in> set es. \<forall>tx. entry_tx e = Some tx \<longrightarrow> tracked tx \<longrightarrow>
        get_default tx ''hash'' (JStr []) \<in> hashes (pending c'))"
proof (induction es arbitrary: h c)
  case Nil
  then show ?case by simp
next
  case (Cons e es)
  from Cons.prems obtain h1 c1 where e: "process_entry e (h, c) = Inr (h1, c1)"
    and es: "process_batch es (h1, c1) = Inr (h', c')"
    by (auto split: sum.splits)
  from process_entry_Inr[OF e] obtain tx where tx: "entry_tx e = Some tx"
    and cs: "if tracked tx
             then \<exists>r. persists_as tx r \<and> c1 = c\<lparr>pending := insert_or_ignore (pending c) r\<rparr>
             else c1 = c"
    by blast
  have a: "hashes (pending c) \<subseteq> hashes (pending c1)"
    and b: "\<forall>tx. entry_tx e = Some tx \<longrightarrow> tracked tx \<longrightarrow>
        get_default tx ''hash'' (JStr []) \<in> hashes (pending c1)"
  proof -
    show "hashes (pending c) \<subseteq> hashes (pending c1)"
    proof (cases "tracked tx")
      case True
      with cs obtain r where "pending c1 = insert_or_ignore (pending c) r" by auto
      then show ?thesis by (simp add: hashes_insert_or_ignore subset_insertI)
    next
      case False
      with cs show ?thesis by simp
    qed
    show "\<forall>tx. entry_tx e = Some tx \<longrightarrow> tracked tx \<longrightarrow>
        get_default tx ''hash'' (JStr []) \<in> hashes (pending c1)"
    proof (intro allI impI)
      fix tx' assume "entry_tx e = Some tx'" "tracked tx'"
      with tx cs obtain r where r: "persists_as tx' r"
        and p: "pending c1 = insert_or_ignore (pending c) r" by auto
      from r have "transaction_hash r = get_default tx' ''hash'' (JStr [])"
        by (simp add: persists_as_def)
      with p show "get_default tx' ''hash'' (JStr []) \<in> hashes (pending c1)"
        by (simp add: hashes_insert_or_ignore)
    qed
  qed
  from Cons.IH[OF es] have
    c: "hashes (pending c1) \<subseteq> hashes (pending c')"
    and d: "\<forall>e \<in> set es. \<forall>tx. entry_tx e = Some tx \<longrightarrow> tracked tx \<longrightarrow>
        get_default tx ''hash'' (JStr []) \<in> hashes (pending c')"
    by simp_all
  from a c have "hashes (pending c) \<subseteq> hashes (pending c')" by (rule subset_trans)
  moreover from b c d have "\<forall>e' \<in> set (e # es). \<forall>tx. entry_tx e' = Some tx \<longrightarrow> tracked tx \<longrightarrow>
        get_default tx ''hash'' (JStr []) \<in> hashes (pending c')"
    by (simp add: subset_iff)
  ultimately show ?case by simp
qed

text \<open>A page whose accepted entries all have a stored hash changes nothing.\<close>

lemma process_batch_known:
  "process_batch es (h, c) = Inr (h', c') \<Longrightarrow>
   (\<forall>e \<in> set es. \<forall>tx. entry_tx e = Some tx \<longrightarrow> tracked tx \<longrightarrow>
        get_default tx ''hash'' (JStr []) \<in> hashes (pending c)) \<Longrightarrow>
   c' = c"
proof (induction es arbitrary: h c)
  case Nil
  then show ?case by simp
next
  case (Cons e es)
  from Cons.prems(1) obtain h1 c1 where e: "process_entry e (h, c) = Inr (h1, c1)"
    and es: "process_batch es (h1, c1) = Inr (h', c')"
    by (auto split: sum.splits)
  from process_entry_Inr[OF e] Cons.prems(2) have "c1 = c"
    by (auto simp: insert_or_ignore_known persists_as_def split: if_splits)
  with Cons.IH[OF es] Cons.prems(2) show ?case by simp
qed

lemma loop_states_cases:
  assumes "s \<in> loop_states remote lim (m, h, c)"
  shows "s = (m, h, c) \<or>
         (\<exists>batch nm h1 c1.
            fetch_account_transactions remote ACCOUNT_TO_CHECK lim 1000 m = Inr (batch, nm) \<and>
            page_result batch (h, c) = Inr (h1, c1) \<and> truthy nm \<and>
            s \<in> loop_states remote lim (nm, h1, commit c1))"
  using assms
proof (induction rule: loop_states.induct)
  case start
  then show ?case by simp
next
  case (step m' h' c' batch nm h1 c1)
  from step.IH show ?case
  proof
    assume "(m', h', c') = (m, h, c)"
    with step.hyps(2,3,4) show ?thesis by (auto intro: loop_states.start)
  next
    assume "\<exists>batch nm h1 c1.
            fetch_account_transactions remote ACCOUNT_TO_CHECK lim 1000 m = Inr (batch, nm) \<and>
            page_result batch (h, c) = Inr (h1, c1) \<and> truthy nm \<and>
            (m', h', c') \<in> loop_states remote lim (nm, h1, commit c1)"
    with step.hyps(2,3,4) show ?thesis by (blast intro: loop_states.step)
  qed
qed

lemma served_cases:
  assumes "e \<in> served remote lim (m, h, c)"
  shows "(\<exists>batch nm es. fetch_account_transactions remote ACCOUNT_TO_CHECK lim 1000 m = Inr (batch, nm) \<and>
            py_iter batch = Inr es \<and> e \<in> set es) \<or>
         (\<exists>batch nm h1 c1.
            fetch_account_transactions remote ACCOUNT_TO_CHECK lim 1000 m = Inr (batch, nm) \<and>
            page_result batch (h, c) = Inr (h1, c1) \<and> truthy nm \<and>
            e \<in> served remote lim (nm, h1, commit c1))"
proof -
  from assms obtain m' h' c' batch nm es where s: "(m', h', c') \<in> loop_states remote lim (m, h, c)"
    and f: "fetch_account_transactions remote ACCOUNT_TO_CHECK lim 1000 m' = Inr (batch, nm)"
    and i: "py_iter batch = Inr es" and e: "e \<in> set es"
    unfolding served_def by blast
  from loop_states_cases[OF s] show ?thesis
  proof
    assume "(m', h', c') = (m, h, c)"
    with f i e show ?thesis by blast
  next
    assume "\<exists>batch nm h1 c1.
            fetch_account_transactions remote ACCOUNT_TO_CHECK lim 1000 m = Inr (batch, nm) \<and>
            page_result batch (h, c) = Inr (h1, c1) \<and> truthy nm \<and>
            (m', h', c') \<in> loop_states remote lim (nm, h1, commit c1)"
    with f i e show ?thesis unfolding served_def by blast
  qed
qed

text \<open>
  A run that returns normally leaves in storage the hash of every accepted entry it was
  served.
\<close>

lemma fetch_loop_hashes:
  assumes "fetch_loop remote lim m h c = Some (Inr hf, T)"
  shows "hashes (pending c) \<subseteq> hashes T \<and>
         (\<forall>e \<in> served remote lim (m, h, c). \<forall>tx. entry_tx e = Some tx \<longrightarrow> tracked tx \<longrightarrow>
            get_default tx ''hash'' (JStr []) \<in> hashes T)"
proof -
  have "\<forall>hf T. y = (Inr hf, T) \<longrightarrow>
         hashes (pending c) \<subseteq> hashes T \<and>
         (\<forall>e \<in> served remote lim (m, h, c). \<forall>tx. entry_tx e = Some tx \<longrightarrow> tracked tx \<longrightarrow>
            get_default tx ''hash'' (JStr []) \<in> hashes T)"
    if "fetch_loop remote lim m h c = Some y" for y
    using that
  proof (induction rule: fetch_loop_induct)
    case (last_page m h c batch nm h1 c1)
    from last_page(2) obtain es where it: "py_iter batch = Inr es"
      and pb: "process_batch es (h, c) = Inr (h1, c1)"
      by (auto simp: page_result_def bind_Inr_iff)
    note H = process_batch_hashes[OF pb]
    have "\<forall>e \<in> served remote lim (m, h, c). e \<in> set es"
      using served_cases[of _ remote lim m h c] last_page(1,3) it by fastforce
    with H show ?case by auto
  next
    case (next_page m h c batch nm h1 c1 y)
    from next_page(2) obtain es where it: "py_iter batch = Inr es"
      and pb: "process_batch es (h, c) = Inr (h1, c1)"
      by (auto simp: page_result_def bind_Inr_iff)
    note H = process_batch_hashes[OF pb]
    have sv: "\<forall>e \<in> served remote lim (m, h, c). e \<in> set es \<or> e \<in> served remote lim (nm, h1, commit c1)"
      using served_cases[of _ remote lim m h c] next_page(1,2) it by fastforce
    show ?case
    proof (intro allI impI)
      fix hf T assume y: "y = (Inr hf, T)"
      with next_page.IH have IH1: "hashes (pending c1) \<subseteq> hashes T"
        and IH2: "\<forall>e \<in> served remote lim (nm, h1, commit c1). \<forall>tx. entry_tx e = Some tx \<longrightarrow> tracked tx \<longrightarrow>
            get_default tx ''hash'' (JStr []) \<in> hashes T"
        by (simp_all add: commit_def)
      from H IH1 IH2 sv show "hashes (pending c) \<subseteq> hashes T \<and>
         (\<forall>e \<in> served remote lim (m, h, c). \<forall>tx. entry_tx e = Some tx \<longrightarrow> tracked tx \<longrightarrow>
            get_default tx ''hash'' (JStr []) \<in> hashes T)"
        by blast
    qed
  qed simp_all
  from this[OF assms] show ?thesis by simp
qed

text \<open>A run that is served only accepted entries with a stored hash leaves storage as it was.\<close>

lemma fetch_loop_known:
  assumes "fetch_loop remote lim m h c = Some y" and "pending c = committed c"
    and "\<forall>e \<in> served remote lim (m, h, c). \<forall>tx. entry_tx e = Some tx \<longrightarrow> tracked tx \<longrightarrow>
            get_default tx ''hash'' (JStr []) \<in> hashes (pending c)"
  shows "snd y = pending c"
  using assms
proof (induction rule: fetch_loop_induct)
  case (last_page m h c batch nm h1 c1)
  from last_page(2) obtain es where it: "py_iter batch = Inr es"
    and pb: "process_batch es (h, c) = Inr (h1, c1)"
    by (auto simp: page_result_def bind_Inr_iff)
  from served_first[OF last_page(1) it, of h c] last_page.prems(2)
  have "c1 = c" by (intro process_batch_known[OF pb]) blast
  then show ?case by simp
next
  case (next_page m h c batch nm h1 c1 y)
  from next_page(2) obtain es where it: "py_iter batch = Inr es"
    and pb: "process_batch es (h, c) = Inr (h1, c1)"
    by (auto simp: page_result_def bind_Inr_iff)
  from served_first[OF next_page(1) it, of h c] next_page.prems(2)
  have c1: "c1 = c" by (intro process_batch_known[OF pb]) blast
  with next_page.prems(1) have cc: "commit c1 = c" by (simp add: commit_def)
  from served_next[OF next_page(1,2,3)] next_page.prems(2) cc
  have "\<forall>e \<in> served remote lim (nm, h1, commit c1). \<forall>tx. entry_tx e = Some tx \<longrightarrow> tracked tx \<longrightarrow>
            get_default tx ''hash'' (JStr []) \<in> hashes (pending (commit c1))"
    by blast
  with next_page.IH next_page.prems(1) cc show ?case by simp
qed simp_all

section \<open>Resumption cursor\<close>

text \<open>
  C4. Resumption cursor. \<^verbatim>\<open>get_last_stored_ledger_index\<close> returns \<open>-1\<close> on empty storage and
  otherwise the greatest \<^verbatim>\<open>ledger_index\<close> of the stored rows. The lower bound of a run is that
  value plus one, \<open>0\<close> on empty storage: the first request of \<^verbatim>\<open>main\<close> is the request for the
  tracked account with this \<^verbatim>\<open>ledger_index_min\<close>, no upper bound, limit 1000 and no marker
  (a ledger that fails it ends the run at once), and the whole run depends on the ledger
  only through requests with this lower bound.
\<close>

theorem resumption_cursor:
  "get_last_stored_ledger_index \<lparr>pending = stored, committed = stored\<rparr> =
     (if stored = [] then - 1 else Max (ledger_index ` set stored)) \<and>
   get_last_stored_ledger_index \<lparr>pending = [], committed = []\<rparr> + 1 = 0 \<and>
   (remote \<lparr>account = ACCOUNT_TO_CHECK,
            ledger_index_min = get_last_stored_ledger_index \<lparr>pending = stored, committed = stored\<rparr> + 1,
            ledger_index_max = - 1, limit = 1000, marker = None\<rparr> = Inl e \<longrightarrow>
      main remote stored = Some (Inl e, stored)) \<and>
   ((\<forall>rq. run_request (get_last_stored_ledger_index \<lparr>pending = stored, committed = stored\<rparr> + 1) rq
           \<longrightarrow> remote' rq = remote rq) \<longrightarrow>
      main remote' stored = main remote stored)"
proof (intro conjI impI)
  show "get_last_stored_ledger_index \<lparr>pending = stored, committed = stored\<rparr> =
     (if stored = [] then - 1 else Max (ledger_index ` set stored))"
    by (simp add: get_last_stored_ledger_index_eq)
  show "get_last_stored_ledger_index \<lparr>pending = [], committed = []\<rparr> + 1 = 0"
    by (simp add: get_last_stored_ledger_index_eq)
next
  assume "remote \<lparr>account = ACCOUNT_TO_CHECK,
            ledger_index_min = get_last_stored_ledger_index \<lparr>pending = stored, committed = stored\<rparr> + 1,
            ledger_index_max = - 1, limit = 1000, marker = None\<rparr> = Inl e"
  then have "fetch_account_transactions remote ACCOUNT_TO_CHECK
      (get_last_stored_ledger_index \<lparr>pending = stored, committed = stored\<rparr> + 1) 1000 JNull = Inl e"
    by (simp add: fetch_request bind_def)
  from fetch_loop_fetch_failed[OF this] show "main remote stored = Some (Inl e, stored)"
    by (simp add: main_unfold)
next
  assume "\<forall>rq. run_request (get_last_stored_ledger_index \<lparr>pending = stored, committed = stored\<rparr> + 1) rq
           \<longrightarrow> remote' rq = remote rq"
  then show "main remote' stored = main remote stored"
    unfolding main_unfold by (intro fetch_loop_agree) simp
qed

text \<open>
  With the rows of ledgers 5 and 7 stored the cursor is 7: a ledger that is down fails the
  run on its first request, and a ledger that answers only requests with lower bound 8
  gives the same run as the ledger it restricts.
\<close>

theorem resumption_cursor_witness:
  "get_last_stored_ledger_index
     \<lparr>pending = [payment_row ''A'' 5 1, payment_row ''B'' 7 2],
      committed = [payment_row ''A'' 5 1, payment_row ''B'' 7 2]\<rparr> = 7 \<and>
   main down [payment_row ''A'' 5 1, payment_row ''B'' 7 2]
     = Some (Inl TransportError, [payment_row ''A'' 5 1, payment_row ''B'' 7 2]) \<and>
   main (only_from 8 two_pages) [payment_row ''A'' 5 1, payment_row ''B'' 7 2]
     = main two_pages [payment_row ''A'' 5 1, payment_row ''B'' 7 2]"
proof -
  let ?S = "[payment_row ''A'' 5 1, payment_row ''B'' 7 2]"
  have cur: "get_last_stored_ledger_index \<lparr>pending = ?S, committed = ?S\<rparr> = 7"
    by code_simp
  have ne: "?S \<noteq> []" by simp
  have d: "down \<lparr>account = ACCOUNT_TO_CHECK, ledger_index_min = 7 + 1,
            ledger_index_max = - 1, limit = 1000, marker = None\<rparr> = Inl TransportError"
    by (simp add: down_def)
  have ag: "\<forall>rq. run_request (7 + 1) rq \<longrightarrow> only_from 8 two_pages rq = two_pages rq"
    by (simp add: run_request_def only_from_def)
  from resumption_cursor[where stored = ?S and remote = down and e = TransportError] cur d
  have a: "main down ?S = Some (Inl TransportError, ?S)" by simp
  from resumption_cursor[where stored = ?S and remote = two_pages
      and remote' = "only_from 8 two_pages"] cur ag
  have b: "main (only_from 8 two_pages) ?S = main two_pages ?S" by simp
  from cur a b show ?thesis by simp
qed

section \<open>Fetcher failure\<close>

text \<open>
  C8. Fetcher failure. A response that is a JSON object without the key \<^verbatim>\<open>result\<close> makes
  \<^verbatim>\<open>fetch_account_transactions\<close> raise its exception. Whenever the fetch raises, the loop ends
  at once with that exception, and storage is what was committed before: at a loop state of
  a run this is the connection of that state, which has nothing pending, and one iteration
  earlier it is the table as the previous page left it.
\<close>

theorem fetcher_failure:
  "(remote \<lparr>account = a, ledger_index_min = lim, ledger_index_max = - 1, limit = l,
            marker = (if truthy m then Some m else None)\<rparr> = Inr (JDict d) \<longrightarrow>
      get d ''result'' = None \<longrightarrow>
      fetch_account_transactions remote a lim l m = Inl RetrievalError) \<and>
   (fetch_account_transactions remote ACCOUNT_TO_CHECK lim 1000 m = Inl e \<longrightarrow>
      fetch_loop remote lim m h c = Some (Inl e, committed c)) \<and>
   (fetch_account_transactions remote ACCOUNT_TO_CHECK lim 1000 m = Inr (batch, nm) \<longrightarrow>
      page_result batch (h, c) = Inr (h1, c1) \<longrightarrow> truthy nm \<longrightarrow>
      fetch_account_transactions remote ACCOUNT_TO_CHECK lim 1000 nm = Inl e \<longrightarrow>
      fetch_loop remote lim m h c = Some (Inl e, pending c1)) \<and>
   ((m, h, c) \<in> run_states remote stored \<longrightarrow>
      fetch_account_transactions remote ACCOUNT_TO_CHECK
        (get_last_stored_ledger_index \<lparr>pending = stored, committed = stored\<rparr> + 1) 1000 m = Inl e \<longrightarrow>
      main remote stored = Some (Inl e, committed c) \<and> pending c = committed c)"
proof (intro conjI impI)
  assume "remote \<lparr>account = a, ledger_index_min = lim, ledger_index_max = - 1, limit = l,
            marker = (if truthy m then Some m else None)\<rparr> = Inr (JDict d)"
    and "get d ''result'' = None"
  then show "fetch_account_transactions remote a lim l m = Inl RetrievalError"
    by (simp add: fetch_request bind_def)
next
  assume "fetch_account_transactions remote ACCOUNT_TO_CHECK lim 1000 m = Inl e"
  then show "fetch_loop remote lim m h c = Some (Inl e, committed c)"
    by (rule fetch_loop_fetch_failed)
next
  assume f: "fetch_account_transactions remote ACCOUNT_TO_CHECK lim 1000 m = Inr (batch, nm)"
    and p: "page_result batch (h, c) = Inr (h1, c1)" and t: "truthy nm"
    and e: "fetch_account_transactions remote ACCOUNT_TO_CHECK lim 1000 nm = Inl e"
  from fetch_loop_next_page[OF f p t] fetch_loop_fetch_failed[OF e, of h1 "commit c1"]
  show "fetch_loop remote lim m h c = Some (Inl e, pending c1)"
    by (simp add: commit_def)
next
  assume s: "(m, h, c) \<in> run_states remote stored"
    and e: "fetch_account_transactions remote ACCOUNT_TO_CHECK
        (get_last_stored_ledger_index \<lparr>pending = stored, committed = stored\<rparr> + 1) 1000 m = Inl e"
  from run_states_main[OF s] fetch_loop_fetch_failed[OF e]
  show "main remote stored = Some (Inl e, committed c)" by simp
  from s[unfolded run_states_def initial_state_def]
  have "pending (snd (snd (m, h, c))) = committed (snd (snd (m, h, c))) \<and>
        set (committed (snd (snd (m, h, c)))) \<subseteq>
          set (committed \<lparr>pending = stored, committed = stored\<rparr>) \<union>
          tracked_rows_of (served remote
            (get_last_stored_ledger_index \<lparr>pending = stored, committed = stored\<rparr> + 1)
            (JNull, get_last_stored_ledger_index \<lparr>pending = stored, committed = stored\<rparr> + 1,
             \<lparr>pending = stored, committed = stored\<rparr>))"
    by (rule loop_states_rows) simp
  then show "pending c = committed c" by simp
qed

text \<open>
  The ledger answers the first request with a payment and a marker, and the request that
  carries the marker with an error object: the run ends with the exception of the fetch and
  storage holds the row of the first page.
\<close>

theorem fetcher_failure_witness:
  "fetch_account_transactions broken_second_page ACCOUNT_TO_CHECK 0 1000 (JInt 1)
     = Inl RetrievalError \<and>
   main broken_second_page [] = Some (Inl RetrievalError, [payment_row ''A'' 5 1])"
proof -
  have lim: "get_last_stored_ledger_index \<lparr>pending = [], committed = []\<rparr> + 1 = 0"
    by code_simp
  have f1: "fetch_account_transactions broken_second_page ACCOUNT_TO_CHECK 0 1000 JNull
      = Inr (JList [payment_entry ''A'' 5 ''1.5''], JInt 1)"
    by code_simp
  have p1: "page_result (JList [payment_entry ''A'' 5 ''1.5'']) (0, \<lparr>pending = [], committed = []\<rparr>)
      = Inr (5, \<lparr>pending = [payment_row ''A'' 5 1], committed = []\<rparr>)"
    by code_simp
  have t: "truthy (JInt 1)" by simp
  have r: "broken_second_page \<lparr>account = ACCOUNT_TO_CHECK, ledger_index_min = 0,
      ledger_index_max = - 1, limit = 1000,
      marker = (if truthy (JInt 1) then Some (JInt 1) else None)\<rparr>
      = Inr (JDict [(''error'', JStr ''slowDown'')])"
    by (simp add: broken_second_page_def)
  have g: "get [(''error'', JStr ''slowDown'')] ''result'' = None"
    by (simp add: get_def)
  from fetcher_failure[where remote = broken_second_page and a = ACCOUNT_TO_CHECK and lim = 0
      and l = 1000 and m = "JInt 1" and d = "[(''error'', JStr ''slowDown'')]"] r g
  have f2: "fetch_account_transactions broken_second_page ACCOUNT_TO_CHECK 0 1000 (JInt 1)
     = Inl RetrievalError" by simp
  from fetcher_failure[where remote = broken_second_page and lim = 0 and m = JNull
      and batch = "JList [payment_entry ''A'' 5 ''1.5'']" and nm = "JInt 1" and h = 0
      and c = "\<lparr>pending = [], committed = []\<rparr>" and ?h1.0 = 5
      and ?c1.0 = "\<lparr>pending = [payment_row ''A'' 5 1], committed = []\<rparr>"
      and e = RetrievalError] f1 p1 t f2
  have "fetch_loop broken_second_page 0 JNull 0 \<lparr>pending = [], committed = []\<rparr>
      = Some (Inl RetrievalError, [payment_row ''A'' 5 1])" by simp
  then have "main broken_second_page [] = Some (Inl RetrievalError, [payment_row ''A'' 5 1])"
    unfolding main_unfold lim .
  with f2 show ?thesis by simp
qed

section \<open>Pagination\<close>

text \<open>
  C7, as stated, at a concrete input. The ledger answers every request with an empty page
  and the marker \<^verbatim>\<open>""\<close>: every response carries a marker, and yet the run returns after the
  first page.
\<close>

theorem pagination_counterexample:
  "(\<forall>rq. \<exists>r. empty_marker_ledger rq = Inr (JDict [(''result'', JDict r)]) \<and>
              get r ''marker'' = Some (JStr [])) \<and>
   main empty_marker_ledger [] = Some (Inr 0, [])"
proof -
  have lim: "get_last_stored_ledger_index \<lparr>pending = [], committed = []\<rparr> + 1 = 0"
    by code_simp
  have f1: "fetch_account_transactions empty_marker_ledger ACCOUNT_TO_CHECK 0 1000 JNull
      = Inr (JList [], JStr [])"
    by code_simp
  have p1: "page_result (JList []) (0, \<lparr>pending = [], committed = []\<rparr>)
      = Inr (0, \<lparr>pending = [], committed = []\<rparr>)"
    by code_simp
  have "main empty_marker_ledger [] = Some (Inr 0, [])"
    unfolding main_unfold lim by (simp add: fetch_loop_last_page[OF f1 p1])
  moreover have "\<forall>rq. \<exists>r. empty_marker_ledger rq = Inr (JDict [(''result'', JDict r)]) \<and>
              get r ''marker'' = Some (JStr [])"
    by (simp add: empty_marker_ledger_def response_def get_def)
  ultimately show ?thesis by simp
qed

text \<open>
  C7, amended. After a page that was fetched and processed without an exception, the loop
  goes on with the returned marker when that marker is truthy, and returns otherwise; a
  marker is not truthy when it is absent (\<open>JNull\<close>), zero or empty. The marker returned is
  the \<^verbatim>\<open>marker\<close> field of the result object, \<open>JNull\<close> without one, and the request for a page
  carries the marker it is given when that is truthy. A run returns normally exactly when
  one of its loop states, after any number of pages, gets a page whose marker is not truthy.
\<close>

theorem pagination_termination:
  "(fetch_account_transactions remote ACCOUNT_TO_CHECK lim 1000 m = Inr (batch, nm) \<longrightarrow>
      page_result batch (h, c) = Inr (h1, c1) \<longrightarrow>
      fetch_loop remote lim m h c =
        (if truthy nm then fetch_loop remote lim nm h1 (commit c1)
         else Some (Inr h1, pending c1))) \<and>
   (\<not> truthy nm \<longleftrightarrow> nm = JNull \<or> nm = JInt 0 \<or> nm = JStr [] \<or> nm = JList [] \<or> nm = JDict []) \<and>
   (remote \<lparr>account = a, ledger_index_min = lim, ledger_index_max = - 1, limit = l,
            marker = (if truthy m then Some m else None)\<rparr> = Inr (JDict d) \<longrightarrow>
      get d ''result'' = Some (JDict r) \<longrightarrow>
      fetch_account_transactions remote a lim l m =
        Inr (get_default r ''transactions'' (JList []),
             (case get r ''marker'' of None \<Rightarrow> JNull | Some v \<Rightarrow> v))) \<and>
   (fetch_loop remote lim m h c = Some (Inr hf, T) \<longleftrightarrow>
      (\<exists>m' h' c' batch' nm' c1'.
         (m', h', c') \<in> loop_states remote lim (m, h, c) \<and>
         fetch_account_transactions remote ACCOUNT_TO_CHECK lim 1000 m' = Inr (batch', nm') \<and>
         page_result batch' (h', c') = Inr (hf, c1') \<and> \<not> truthy nm' \<and> T = pending c1'))"
proof (intro conjI impI)
  assume f: "fetch_account_transactions remote ACCOUNT_TO_CHECK lim 1000 m = Inr (batch, nm)"
    and p: "page_result batch (h, c) = Inr (h1, c1)"
  show "fetch_loop remote lim m h c =
        (if truthy nm then fetch_loop remote lim nm h1 (commit c1)
         else Some (Inr h1, pending c1))"
    using fetch_loop_next_page[OF f p] fetch_loop_last_page[OF f p] by simp
next
  show "\<not> truthy nm \<longleftrightarrow> nm = JNull \<or> nm = JInt 0 \<or> nm = JStr [] \<or> nm = JList [] \<or> nm = JDict []"
    by (rule falsy_iff)
next
  assume "remote \<lparr>account = a, ledger_index_min = lim, ledger_index_max = - 1, limit = l,
            marker = (if truthy m then Some m else None)\<rparr> = Inr (JDict d)"
    and "get d ''result'' = Some (JDict r)"
  then show "fetch_account_transactions remote a lim l m =
        Inr (get_default r ''transactions'' (JList []),
             (case get r ''marker'' of None \<Rightarrow> JNull | Some v \<Rightarrow> v))"
    by (simp add: fetch_request bind_def get_default_def get_def)
next
  show "fetch_loop remote lim m h c = Some (Inr hf, T) \<longleftrightarrow>
      (\<exists>m' h' c' batch' nm' c1'.
         (m', h', c') \<in> loop_states remote lim (m, h, c) \<and>
         fetch_account_transactions remote ACCOUNT_TO_CHECK lim 1000 m' = Inr (batch', nm') \<and>
         page_result batch' (h', c') = Inr (hf, c1') \<and> \<not> truthy nm' \<and> T = pending c1')"
    unfolding fetch_loop_returns_iff final_state_def by auto
qed

text \<open>
  On the ledger of two pages the first marker is truthy and is sent with the second request;
  the second page has no marker, and the run returns after it.
\<close>

theorem pagination_termination_witness:
  "fetch_loop two_pages 0 JNull 0 \<lparr>pending = [], committed = []\<rparr>
     = fetch_loop two_pages 0 (JInt 1) 5 \<lparr>pending = [payment_row ''A'' 5 1],
                                           committed = [payment_row ''A'' 5 1]\<rparr> \<and>
   fetch_loop two_pages 0 (JInt 1) 5 \<lparr>pending = [payment_row ''A'' 5 1],
                                       committed = [payment_row ''A'' 5 1]\<rparr>
     = Some (Inr 8, [payment_row ''A'' 5 1, payment_row ''B'' 7 2])"
proof -
  have f1: "fetch_account_transactions two_pages ACCOUNT_TO_CHECK 0 1000 JNull
      = Inr (JList [payment_entry ''A'' 5 ''1.5''], JInt 1)"
    by code_simp
  have p1: "page_result (JList [payment_entry ''A'' 5 ''1.5'']) (0, \<lparr>pending = [], committed = []\<rparr>)
      = Inr (5, \<lparr>pending = [payment_row ''A'' 5 1], committed = []\<rparr>)"
    by code_simp
  have f2: "fetch_account_transactions two_pages ACCOUNT_TO_CHECK 0 1000 (JInt 1)
      = Inr (JList [payment_entry ''B'' 7 ''2.5'', payment_entry ''A'' 8 ''3''], JNull)"
    by code_simp
  have p2: "page_result (JList [payment_entry ''B'' 7 ''2.5'', payment_entry ''A'' 8 ''3''])
        (5, \<lparr>pending = [payment_row ''A'' 5 1], committed = [payment_row ''A'' 5 1]\<rparr>)
      = Inr (8, \<lparr>pending = [payment_row ''A'' 5 1, payment_row ''B'' 7 2],
                 committed = [payment_row ''A'' 5 1]\<rparr>)"
    by code_simp
  from pagination_termination[where remote = two_pages and lim = 0 and m = JNull
      and batch = "JList [payment_entry ''A'' 5 ''1.5'']" and nm = "JInt 1" and h = 0
      and c = "\<lparr>pending = [], committed = []\<rparr>" and ?h1.0 = 5
      and ?c1.0 = "\<lparr>pending = [payment_row ''A'' 5 1], committed = []\<rparr>"] f1 p1
  have a: "fetch_loop two_pages 0 JNull 0 \<lparr>pending = [], committed = []\<rparr>
     = fetch_loop two_pages 0 (JInt 1) 5 \<lparr>pending = [payment_row ''A'' 5 1],
                                           committed = [payment_row ''A'' 5 1]\<rparr>"
    by (simp add: commit_def)
  from pagination_termination[where remote = two_pages and lim = 0 and m = "JInt 1"
      and batch = "JList [payment_entry ''B'' 7 ''2.5'', payment_entry ''A'' 8 ''3'']"
      and nm = JNull and h = 5
      and c = "\<lparr>pending = [payment_row ''A'' 5 1], committed = [payment_row ''A'' 5 1]\<rparr>"
      and ?h1.0 = 8
      and ?c1.0 = "\<lparr>pending = [payment_row ''A'' 5 1, payment_row ''B'' 7 2],
                 committed = [payment_row ''A'' 5 1]\<rparr>"] f2 p2
  have b: "fetch_loop two_pages 0 (JInt 1) 5 \<lparr>pending = [payment_row ''A'' 5 1],
                                       committed = [payment_row ''A'' 5 1]\<rparr>
     = Some (Inr 8, [payment_row ''A'' 5 1, payment_row ''B'' 7 2])"
    by simp
  from a b show ?thesis by simp
qed

section \<open>Transactions without a hash\<close>

text \<open>
  C10. A transaction that passes the filter and has no \<^verbatim>\<open>hash\<close> field is given the
  transaction hash \<^verbatim>\<open>""\<close>: its row is appended when no stored row has that hash, and the
  connection is left as it is when one has. With unique hashes in storage before a run, the
  hashes are unique at every state of the run and when it returns, so at most one row with
  the hash \<^verbatim>\<open>""\<close> is ever stored.
\<close>

theorem hashless_records:
  "(entry_tx entry = Some tx \<longrightarrow> is_token_payment tx CURRENCY_CODE ISSUER_ADDRESS \<longrightarrow>
      get tx ''hash'' = None \<longrightarrow> persists_as tx r \<longrightarrow>
      transaction_hash r = JStr [] \<and>
      process_entry entry (h, conn) =
        Inr (max h (ledger_index r),
             if list_ex (\<lambda>r'. transaction_hash r' = JStr []) (pending conn) then conn
             else conn\<lparr>pending := pending conn @ [r]\<rparr>)) \<and>
   (distinct (map transaction_hash stored) \<longrightarrow> (m, h', c) \<in> run_states remote stored \<longrightarrow>
      distinct (map transaction_hash (committed c)) \<and>
      length (filter (\<lambda>r. transaction_hash r = JStr []) (committed c)) \<le> 1) \<and>
   (distinct (map transaction_hash stored) \<longrightarrow> main remote stored = Some (outcome, stored') \<longrightarrow>
      distinct (map transaction_hash stored') \<and>
      length (filter (\<lambda>r. transaction_hash r = JStr []) stored') \<le> 1)"
proof (intro conjI impI)
  assume etx: "entry_tx entry = Some tx"
    and tr: "is_token_payment tx CURRENCY_CODE ISSUER_ADDRESS"
    and nh: "get tx ''hash'' = None" and pa: "persists_as tx r"
  from pa nh show hr: "transaction_hash r = JStr []"
    by (simp add: persists_as_def get_default_def get_def)
  from tr have "tracked tx" by (simp add: tracked_def)
  from process_entry_accepted[OF etx this pa, of h conn] hr
  show "process_entry entry (h, conn) =
        Inr (max h (ledger_index r),
             if list_ex (\<lambda>r'. transaction_hash r' = JStr []) (pending conn) then conn
             else conn\<lparr>pending := pending conn @ [r]\<rparr>)"
    by (simp add: insert_or_ignore_def)
next
  assume d: "distinct (map transaction_hash stored)"
    and s: "(m, h', c) \<in> run_states remote stored"
  have d1: "distinct (map transaction_hash (pending \<lparr>pending = stored, committed = stored\<rparr>))"
    and d2: "distinct (map transaction_hash (committed \<lparr>pending = stored, committed = stored\<rparr>))"
    using d by simp_all
  from loop_states_distinct[OF s[unfolded run_states_def initial_state_def] d1 d2]
  have "distinct (map transaction_hash (pending (snd (snd (m, h', c))))) \<and>
        distinct (map transaction_hash (committed (snd (snd (m, h', c)))))" .
  then show dc: "distinct (map transaction_hash (committed c))" by simp
  then show "length (filter (\<lambda>r. transaction_hash r = JStr []) (committed c)) \<le> 1"
    by (rule distinct_at_most_one)
next
  assume d: "distinct (map transaction_hash stored)"
    and run: "main remote stored = Some (outcome, stored')"
  have d1: "distinct (map transaction_hash (pending \<lparr>pending = stored, committed = stored\<rparr>))"
    and d2: "distinct (map transaction_hash (committed \<lparr>pending = stored, committed = stored\<rparr>))"
    using d by simp_all
  from fetch_loop_distinct[OF run[unfolded main_unfold] d1 d2]
  have "distinct (map transaction_hash (snd (outcome, stored')))" .
  then show ds: "distinct (map transaction_hash stored')" by simp
  then show "length (filter (\<lambda>r. transaction_hash r = JStr []) stored') \<le> 1"
    by (rule distinct_at_most_one)
qed

text \<open>
  On the page with two payments without a hash, started on empty storage: the first is
  stored with the hash \<^verbatim>\<open>""\<close>, the second is dropped.
\<close>

theorem hashless_records_witness:
  "main hashless_page [] = Some (Inr 6, [hashless_row 5 1]) \<and>
   transaction_hash (hashless_row 5 1) = JStr [] \<and>
   process_entry (JDict [(''tx'', JDict (hashless_tx 6 ''2''))])
       (5, \<lparr>pending = [hashless_row 5 1], committed = []\<rparr>)
     = Inr (6, \<lparr>pending = [hashless_row 5 1], committed = []\<rparr>) \<and>
   process_entry (JDict [(''tx'', JDict (hashless_tx 5 ''1''))])
       (0, \<lparr>pending = [], committed = []\<rparr>)
     = Inr (5, \<lparr>pending = [hashless_row 5 1], committed = []\<rparr>) \<and>
   length (filter (\<lambda>r. transaction_hash r = JStr []) [hashless_row 5 1]) \<le> 1"
proof -
  have lim: "get_last_stored_ledger_index \<lparr>pending = [], committed = []\<rparr> + 1 = 0"
    by code_simp
  have f1: "fetch_account_transactions hashless_page ACCOUNT_TO_CHECK 0 1000 JNull
      = Inr (JList [JDict [(''tx'', JDict (hashless_tx 5 ''1''))],
                    JDict [(''tx'', JDict (hashless_tx 6 ''2''))]], JNull)"
    by code_simp
  have p1: "page_result (JList [JDict [(''tx'', JDict (hashless_tx 5 ''1''))],
                    JDict [(''tx'', JDict (hashless_tx 6 ''2''))]])
        (0, \<lparr>pending = [], committed = []\<rparr>)
      = Inr (6, \<lparr>pending = [hashless_row 5 1], committed = []\<rparr>)"
    by code_simp
  have run: "main hashless_page [] = Some (Inr 6, [hashless_row 5 1])"
    unfolding main_unfold lim by (simp add: fetch_loop_last_page[OF f1 p1])
  have e1: "entry_tx (JDict [(''tx'', JDict (hashless_tx 5 ''1''))]) = Some (hashless_tx 5 ''1'')"
    and e2: "entry_tx (JDict [(''tx'', JDict (hashless_tx 6 ''2''))]) = Some (hashless_tx 6 ''2'')"
    by code_simp+
  have t1: "is_token_payment (hashless_tx 5 ''1'') CURRENCY_CODE ISSUER_ADDRESS"
    and t2: "is_token_payment (hashless_tx 6 ''2'') CURRENCY_CODE ISSUER_ADDRESS"
    by code_simp+
  have n1: "get (hashless_tx 5 ''1'') ''hash'' = None"
    and n2: "get (hashless_tx 6 ''2'') ''hash'' = None"
    by code_simp+
  have q1: "persists_as (hashless_tx 5 ''1'') (hashless_row 5 1)"
    and q2: "persists_as (hashless_tx 6 ''2'') (hashless_row 6 2)"
    by code_simp+
  have li: "ledger_index (hashless_row 5 1) = 5" "ledger_index (hashless_row 6 2) = 6"
    by (simp_all add: hashless_row_def)
  have ex: "list_ex (\<lambda>r'. transaction_hash r' = JStr []) [hashless_row 5 1]"
    by (simp add: hashless_row_def)
  from hashless_records[where entry = "JDict [(''tx'', JDict (hashless_tx 5 ''1''))]"
      and tx = "hashless_tx 5 ''1''" and r = "hashless_row 5 1" and h = 0
      and conn = "\<lparr>pending = [], committed = []\<rparr>"] e1 t1 n1 q1 li
  have a: "transaction_hash (hashless_row 5 1) = JStr []"
    "process_entry (JDict [(''tx'', JDict (hashless_tx 5 ''1''))])
       (0, \<lparr>pending = [], committed = []\<rparr>)
     = Inr (5, \<lparr>pending = [hashless_row 5 1], committed = []\<rparr>)"
    by simp_all
  from hashless_records[where entry = "JDict [(''tx'', JDict (hashless_tx 6 ''2''))]"
      and tx = "hashless_tx 6 ''2''" and r = "hashless_row 6 2" and h = 5
      and conn = "\<lparr>pending = [hashless_row 5 1], committed = []\<rparr>"] e2 t2 n2 q2 li ex
  have b: "process_entry (JDict [(''tx'', JDict (hashless_tx 6 ''2''))])
       (5, \<lparr>pending = [hashless_row 5 1], committed = []\<rparr>)
     = Inr (6, \<lparr>pending = [hashless_row 5 1], committed = []\<rparr>)"
    by simp
  from hashless_records[where stored = "[]" and remote = hashless_page
      and outcome = "Inr 6" and stored' = "[hashless_row 5 1]"] run
  have c: "length (filter (\<lambda>r. transaction_hash r = JStr []) [hashless_row 5 1]) \<le> 1"
    by simp
  from run a b c show ?thesis by simp
qed

section \<open>Idempotent persistence\<close>

text \<open>
  C1. Idempotent, insert-only persistence. An insert whose transaction hash is already in
  the table leaves the table, and so the connection, exactly as it was, and there is no
  error to report: \<^verbatim>\<open>insert_transaction\<close> always returns; a new hash appends the row. When a
  run has returned normally and the ledger is unchanged, which here means that the entries
  it returns to a second run are among those it returned to the first, a second run that
  returns leaves storage identical to what the first run left.
\<close>

theorem idempotent_persistence:
  "(list_ex (\<lambda>r'. transaction_hash r' = transaction_hash r) t \<longrightarrow> insert_or_ignore t r = t) \<and>
   (\<not> list_ex (\<lambda>r'. transaction_hash r' = transaction_hash r) t \<longrightarrow>
      insert_or_ignore t r = t @ [r]) \<and>
   (list_ex (\<lambda>r'. transaction_hash r' = tx_hash) (pending conn) \<longrightarrow>
      insert_transaction conn li tx_hash from_addr to_addr memo_str amount_int tx_datetime = conn) \<and>
   (main remote stored = Some (Inr hf, stored1) \<longrightarrow>
      run_served remote stored1 \<subseteq> run_served remote stored \<longrightarrow>
      main remote stored1 = Some (outcome, stored2) \<longrightarrow> stored2 = stored1)"
proof (intro conjI impI)
  show "list_ex (\<lambda>r'. transaction_hash r' = transaction_hash r) t \<Longrightarrow> insert_or_ignore t r = t"
    by (simp add: insert_or_ignore_def)
  show "\<not> list_ex (\<lambda>r'. transaction_hash r' = transaction_hash r) t \<Longrightarrow>
      insert_or_ignore t r = t @ [r]"
    by (simp add: insert_or_ignore_def)
  show "list_ex (\<lambda>r'. transaction_hash r' = tx_hash) (pending conn) \<Longrightarrow>
      insert_transaction conn li tx_hash from_addr to_addr memo_str amount_int tx_datetime = conn"
    by (simp add: insert_transaction_def insert_or_ignore_def)
next
  assume run1: "main remote stored = Some (Inr hf, stored1)"
    and sub: "run_served remote stored1 \<subseteq> run_served remote stored"
    and run2: "main remote stored1 = Some (outcome, stored2)"
  from fetch_loop_hashes[OF run1[unfolded main_unfold]]
  have known: "\<forall>e \<in> run_served remote stored. \<forall>tx. entry_tx e = Some tx \<longrightarrow> tracked tx \<longrightarrow>
            get_default tx ''hash'' (JStr []) \<in> hashes stored1"
    unfolding run_served_def initial_state_def by simp
  have "snd (outcome, stored2) = pending \<lparr>pending = stored1, committed = stored1\<rparr>"
  proof (rule fetch_loop_known[OF run2[unfolded main_unfold]])
    show "pending \<lparr>pending = stored1, committed = stored1\<rparr>
          = committed \<lparr>pending = stored1, committed = stored1\<rparr>" by simp
    show "\<forall>e \<in> served remote
             (get_last_stored_ledger_index \<lparr>pending = stored1, committed = stored1\<rparr> + 1)
             (JNull, get_last_stored_ledger_index \<lparr>pending = stored1, committed = stored1\<rparr> + 1,
              \<lparr>pending = stored1, committed = stored1\<rparr>).
           \<forall>tx. entry_tx e = Some tx \<longrightarrow> tracked tx \<longrightarrow>
            get_default tx ''hash'' (JStr []) \<in> hashes (pending \<lparr>pending = stored1, committed = stored1\<rparr>)"
      using known sub unfolding run_served_def initial_state_def by auto
  qed
  then show "stored2 = stored1" by simp
qed

lemma two_pages_fetch:
  "fetch_account_transactions two_pages a lim l m =
     (if truthy m
      then Inr (JList [payment_entry ''B'' 7 ''2.5'', payment_entry ''A'' 8 ''3''], JNull)
      else Inr (JList [payment_entry ''A'' 5 ''1.5''], JInt 1))"
  by (simp add: fetch_request two_pages_def response_def bind_def get_def get_default_def)

lemma two_pages_served:
  "served two_pages lim s0 \<subseteq>
     {payment_entry ''A'' 5 ''1.5'', payment_entry ''B'' 7 ''2.5'', payment_entry ''A'' 8 ''3''}"
  unfolding served_def by (auto simp: two_pages_fetch split: if_splits)

lemma two_pages_served_first_run:
  "{payment_entry ''A'' 5 ''1.5'', payment_entry ''B'' 7 ''2.5'', payment_entry ''A'' 8 ''3''}
     \<subseteq> run_served two_pages []"
proof -
  have lim: "get_last_stored_ledger_index \<lparr>pending = [], committed = []\<rparr> + 1 = 0"
    by code_simp
  let ?s0 = "(JNull, 0::int, \<lparr>pending = [], committed = []\<rparr>)"
  have f1: "fetch_account_transactions two_pages ACCOUNT_TO_CHECK 0 1000 JNull
      = Inr (JList [payment_entry ''A'' 5 ''1.5''], JInt 1)"
    by (simp add: two_pages_fetch)
  have p1: "page_result (JList [payment_entry ''A'' 5 ''1.5'']) (0, \<lparr>pending = [], committed = []\<rparr>)
      = Inr (5, \<lparr>pending = [payment_row ''A'' 5 1], committed = []\<rparr>)"
    by code_simp
  have f2: "fetch_account_transactions two_pages ACCOUNT_TO_CHECK 0 1000 (JInt 1)
      = Inr (JList [payment_entry ''B'' 7 ''2.5'', payment_entry ''A'' 8 ''3''], JNull)"
    by (simp add: two_pages_fetch)
  have s0: "?s0 \<in> loop_states two_pages 0 ?s0" by (rule loop_states.start)
  from loop_states.step[OF s0 f1 p1]
  have s1: "(JInt 1, 5, commit \<lparr>pending = [payment_row ''A'' 5 1], committed = []\<rparr>)
              \<in> loop_states two_pages 0 ?s0" by simp
  have "set [payment_entry ''A'' 5 ''1.5''] \<subseteq> served two_pages 0 ?s0"
    unfolding served_def using s0 f1 by fastforce
  moreover have "set [payment_entry ''B'' 7 ''2.5'', payment_entry ''A'' 8 ''3'']
                   \<subseteq> served two_pages 0 ?s0"
    unfolding served_def using s1 f2 by fastforce
  ultimately show ?thesis
    unfolding run_served_def initial_state_def lim by simp
qed

text \<open>
  The ledger of two pages, run twice from empty storage: the second run is served the same
  entries, inserts nothing and leaves the two rows of the first run.
\<close>

theorem idempotent_persistence_witness:
  "main two_pages [] = Some (Inr 8, [payment_row ''A'' 5 1, payment_row ''B'' 7 2]) \<and>
   run_served two_pages [payment_row ''A'' 5 1, payment_row ''B'' 7 2] \<subseteq> run_served two_pages [] \<and>
   main two_pages [payment_row ''A'' 5 1, payment_row ''B'' 7 2]
     = Some (Inr 8, [payment_row ''A'' 5 1, payment_row ''B'' 7 2]) \<and>
   insert_or_ignore [payment_row ''A'' 5 1, payment_row ''B'' 7 2] (payment_row ''A'' 8 3)
     = [payment_row ''A'' 5 1, payment_row ''B'' 7 2]"
proof -
  let ?S = "[payment_row ''A'' 5 1, payment_row ''B'' 7 2]"
  let ?c = "\<lparr>pending = ?S, committed = ?S\<rparr>"
  have lim: "get_last_stored_ledger_index ?c + 1 = 8" by code_simp
  have f1: "fetch_account_transactions two_pages ACCOUNT_TO_CHECK 8 1000 JNull
      = Inr (JList [payment_entry ''A'' 5 ''1.5''], JInt 1)"
    by (simp add: two_pages_fetch)
  have p1: "page_result (JList [payment_entry ''A'' 5 ''1.5'']) (8, ?c) = Inr (8, ?c)"
    by code_simp
  have f2: "fetch_account_transactions two_pages ACCOUNT_TO_CHECK 8 1000 (JInt 1)
      = Inr (JList [payment_entry ''B'' 7 ''2.5'', payment_entry ''A'' 8 ''3''], JNull)"
    by (simp add: two_pages_fetch)
  have p2: "page_result (JList [payment_entry ''B'' 7 ''2.5'', payment_entry ''A'' 8 ''3''])
        (8, commit ?c) = Inr (8, ?c)"
    by code_simp
  have run2: "main two_pages ?S = Some (Inr 8, ?S)"
    unfolding main_unfold lim
    by (simp add: fetch_loop_next_page[OF f1 p1] fetch_loop_last_page[OF f2 p2])
  have sub: "run_served two_pages ?S \<subseteq> run_served two_pages []"
    using two_pages_served two_pages_served_first_run unfolding run_served_def by blast
  have ex: "list_ex (\<lambda>r'. transaction_hash r' = transaction_hash (payment_row ''A'' 8 3)) ?S"
    by (simp add: payment_row_def)
  from idempotent_persistence[where t = ?S and r = "payment_row ''A'' 8 3"] ex
  have ins: "insert_or_ignore ?S (payment_row ''A'' 8 3) = ?S" by blast
  from idempotent_persistence[where remote = two_pages and stored = "[]" and hf = 8
      and ?stored1.0 = ?S and outcome = "Inr 8" and ?stored2.0 = ?S] two_pages_run sub run2
  have "?S = ?S" by simp
  with two_pages_run sub run2 ins show ?thesis by simp
qed

end
